theory Spec2Isabelle
  imports Main "HOL-Library.AList" "HOL-Library.Sublist"
begin

section \<open>JSON values and the Python operations the engine applies to them\<close>

text \<open>
  The engine of \<^verbatim>\<open>cloud-init.py\<close> works on the dictionaries and lists that
  \<^verbatim>\<open>json.loads\<close> returns. A dictionary is an association list (insertion order
  kept, the first binding of a key is the one looked up); numbers are integers.
\<close>

datatype json =
    JNull
  | JBool bool
  | JNum int
  | JStr string
  | JList "json list"
  | JDict "(string \<times> json) list"

text \<open>
  \<^verbatim>\<open>x == y\<close> on such values: \<^verbatim>\<open>True\<close> and \<^verbatim>\<open>False\<close> equal the numbers 1 and 0,
  lists are compared element by element, dictionaries key by key whatever the order of
  their keys, and values of different kinds are never equal.
\<close>

function py_eq :: "json \<Rightarrow> json \<Rightarrow> bool" where
  "py_eq JNull y = (y = JNull)"
| "py_eq (JBool a) y =
     (case y of JBool b \<Rightarrow> a = b | JNum n \<Rightarrow> n = (if a then 1 else 0) | _ \<Rightarrow> False)"
| "py_eq (JNum m) y =
     (case y of JBool b \<Rightarrow> m = (if b then 1 else 0) | JNum n \<Rightarrow> m = n | _ \<Rightarrow> False)"
| "py_eq (JStr a) y = (y = JStr a)"
| "py_eq (JList xs) y = (case y of JList ys \<Rightarrow> list_all2 py_eq xs ys | _ \<Rightarrow> False)"
| "py_eq (JDict a) y =
     (case y of
        JDict b \<Rightarrow>
          list_all (\<lambda>(k, u). case map_of b k of Some v \<Rightarrow> py_eq u v | None \<Rightarrow> False) a
          \<and> list_all (\<lambda>(k, v). k \<in> fst ` set a) b
      | _ \<Rightarrow> False)"
  by pat_completeness auto
termination
  by (relation "measure (\<lambda>(x, y). size x)") (auto simp: less_Suc_eq_le size_list_estimation')

text \<open>\<^verbatim>\<open>x in xs\<close> for a list: some element equals \<open>x\<close>.\<close>

definition py_mem :: "json \<Rightarrow> json list \<Rightarrow> bool" where
  "py_mem x xs = list_ex (py_eq x) xs"

text \<open>
  Every way a run of the program ends early: the Python exceptions that the code can
  raise on a value of the wrong shape, and the places where it calls
  \<^verbatim>\<open>exit(1)\<close>, named after the condition the specification gives them
  (\<open>NotFound\<close>, \<open>AlreadyExists\<close>, \<open>DuplicateName\<close>, \<open>Timeout\<close>).
\<close>

datatype error =
    KeyError
  | TypeError
  | AttributeError
  | ValueError
  | IndexError
  | InvalidURL
  | FileNotFoundError
  | NotFound
  | AlreadyExists
  | DuplicateName
  | Timeout

text \<open>\<^verbatim>\<open>obj[key]\<close> for a string key.\<close>

fun getitem :: "json \<Rightarrow> string \<Rightarrow> error + json" where
  "getitem (JDict kvs) k = (case map_of kvs k of None \<Rightarrow> Inl KeyError | Some v \<Rightarrow> Inr v)"
| "getitem _ k = Inl TypeError"

text \<open>\<^verbatim>\<open>obj[key] = v\<close> for a string key: an existing key keeps its place, a new one is appended.\<close>

fun setitem :: "json \<Rightarrow> string \<Rightarrow> json \<Rightarrow> error + json" where
  "setitem (JDict kvs) k v = Inr (JDict (AList.update k v kvs))"
| "setitem _ k v = Inl TypeError"

text \<open>\<^verbatim>\<open>del obj[key]\<close>.\<close>

fun delitem :: "json \<Rightarrow> string \<Rightarrow> error + json" where
  "delitem (JDict kvs) k =
     (if k \<in> fst ` set kvs then Inr (JDict (AList.delete k kvs)) else Inl KeyError)"
| "delitem _ k = Inl TypeError"

text \<open>\<^verbatim>\<open>needle in haystack\<close> on strings (substring test) and \<^verbatim>\<open>s.endswith(suffix)\<close>.\<close>

fun str_contains :: "string \<Rightarrow> string \<Rightarrow> bool" where
  "str_contains [] needle = (needle = [])"
| "str_contains (c # cs) needle =
     (take (length needle) (c # cs) = needle \<or> str_contains cs needle)"

definition endswith :: "string \<Rightarrow> string \<Rightarrow> bool" where
  "endswith s suf = (length suf \<le> length s \<and> drop (length s - length suf) s = suf)"

text \<open>
  \<^verbatim>\<open>x in obj\<close>: key membership for a dictionary, element membership for a list,
  substring test for a string, \<^verbatim>\<open>TypeError\<close> for anything else.
\<close>

fun py_in :: "json \<Rightarrow> json \<Rightarrow> error + bool" where
  "py_in x (JDict kvs) = (case x of JStr k \<Rightarrow> Inr (k \<in> fst ` set kvs) | _ \<Rightarrow> Inr False)"
| "py_in x (JList xs) = Inr (py_mem x xs)"
| "py_in x (JStr s) = (case x of JStr k \<Rightarrow> Inr (str_contains s k) | _ \<Rightarrow> Inl TypeError)"
| "py_in x _ = Inl TypeError"

text \<open>
  \<^verbatim>\<open>for t in obj\<close>: the elements of a list, the keys of a dictionary, the characters
  of a string.
\<close>

fun py_iter :: "json \<Rightarrow> error + json list" where
  "py_iter (JList xs) = Inr xs"
| "py_iter (JDict kvs) = Inr (map (\<lambda>kv. JStr (fst kv)) kvs)"
| "py_iter (JStr s) = Inr (map (\<lambda>c. JStr [c]) s)"
| "py_iter _ = Inl TypeError"

text \<open>
  \<^verbatim>\<open>a + b\<close>. The engine adds lists to lists and strings to strings. The sum of two
  numbers, which Python also computes, is only ever iterated or extended by a string next,
  which raises the \<^verbatim>\<open>TypeError\<close> given here.
\<close>

fun py_add :: "json \<Rightarrow> json \<Rightarrow> error + json" where
  "py_add (JList xs) (JList ys) = Inr (JList (xs @ ys))"
| "py_add (JStr a) (JStr b) = Inr (JStr (a @ b))"
| "py_add _ _ = Inl TypeError"

text \<open>\<^verbatim>\<open>len(obj)\<close>.\<close>

fun py_len :: "json \<Rightarrow> error + nat" where
  "py_len (JList xs) = Inr (length xs)"
| "py_len (JDict kvs) = Inr (length kvs)"
| "py_len (JStr s) = Inr (length s)"
| "py_len _ = Inl TypeError"

text \<open>
  The string a value denotes where the code needs one (string concatenation in a
  \<^verbatim>\<open>print\<close>, a dictionary key built with \<^verbatim>\<open>+\<close>).
\<close>

fun as_str :: "json \<Rightarrow> error + string" where
  "as_str (JStr s) = Inr s"
| "as_str _ = Inl TypeError"

text \<open>The decimal text of an integer, as \<^verbatim>\<open>str\<close> and an f-string print it.\<close>

definition digit :: "nat \<Rightarrow> char" where
  "digit d = ''0123456789'' ! d"

fun show_nat :: "nat \<Rightarrow> string" where
  "show_nat n = (if n < 10 then [digit n] else show_nat (n div 10) @ [digit (n mod 10)])"

definition show_int :: "int \<Rightarrow> string" where
  "show_int i = (if i < 0 then CHR ''-'' # show_nat (nat (- i)) else show_nat (nat i))"

text \<open>Sequencing of operations that may raise.\<close>

definition and_then :: "error + 'a \<Rightarrow> ('a \<Rightarrow> error + 'b) \<Rightarrow> error + 'b" where
  "and_then r f = (case r of Inl e \<Rightarrow> Inl e | Inr x \<Rightarrow> f x)"

text \<open>\<^verbatim>\<open>obj[k1][k2]...\<close> and the assignment \<^verbatim>\<open>obj[k1][k2]... = v\<close> inside a copy of \<open>obj\<close>.\<close>

fun get_in :: "json \<Rightarrow> string list \<Rightarrow> error + json" where
  "get_in obj [] = Inr obj"
| "get_in obj (k # ks) = and_then (getitem obj k) (\<lambda>child. get_in child ks)"

fun set_in :: "json \<Rightarrow> string list \<Rightarrow> json \<Rightarrow> error + json" where
  "set_in obj [] v = Inr v"
| "set_in obj (k # ks) v =
     and_then (getitem obj k) (\<lambda>child.
     and_then (set_in child ks v) (\<lambda>child'.
       setitem obj k child'))"

text \<open>\<^verbatim>\<open>xs[i]\<close> and \<^verbatim>\<open>xs[i] = v\<close> for a list and an index that is not negative.\<close>

fun getindex :: "json \<Rightarrow> nat \<Rightarrow> error + json" where
  "getindex (JList xs) i = (if i < length xs then Inr (xs ! i) else Inl IndexError)"
| "getindex (JStr s) i = (if i < length s then Inr (JStr [s ! i]) else Inl IndexError)"
| "getindex (JDict kvs) i = Inl KeyError"
| "getindex _ i = Inl TypeError"

fun setindex :: "json \<Rightarrow> nat \<Rightarrow> json \<Rightarrow> error + json" where
  "setindex (JList xs) i v = (if i < length xs then Inr (JList (xs[i := v])) else Inl IndexError)"
| "setindex _ i v = Inl TypeError"

text \<open>\<^verbatim>\<open>xs.index(x)\<close>: the position of the first element equal to \<open>x\<close>.\<close>

fun index_of :: "json list \<Rightarrow> json \<Rightarrow> error + nat" where
  "index_of [] x = Inl ValueError"
| "index_of (y # ys) x =
     (if py_eq y x then Inr 0 else and_then (index_of ys x) (\<lambda>i. Inr (Suc i)))"

text \<open>\<^verbatim>\<open>[t["properties"]["name"] for t in ts]\<close>.\<close>

fun names_of :: "json list \<Rightarrow> error + json list" where
  "names_of [] = Inr []"
| "names_of (t # ts) =
     and_then (get_in t [''properties'', ''name'']) (\<lambda>n.
     and_then (names_of ts) (\<lambda>ns. Inr (n # ns)))"


section \<open>The world outside the program\<close>

text \<open>
  The remote API is a parameter: \<open>http\<close> answers a request in a state \<open>'r\<close> of the
  remote side with the parsed JSON body of the response and the next remote state, and
  \<open>elapse\<close> is what the remote side does while the program sleeps. Nothing is assumed
  of either. The other fields are what the program reads from its process environment:
  the variable \<^verbatim>\<open>DATACENTER\<close> (the dispatcher runs the engine only when it is set),
  \<^verbatim>\<open>os.listdir\<close>, the boot-script assembler \<^verbatim>\<open>user_data\<close> (an external
  collaborator, taken as a function of directory and file name), the source of
  \<^verbatim>\<open>random.choices\<close> (the \<open>i\<close>-th draw is \<open>random i\<close>), and \<open>repr\<close>, the text
  Python prints for a list or a dictionary.
\<close>

datatype request =
    GET string
  | POST string json
  | PATCH string json
  | DELETE string

datatype event = Request request | Sleep nat

record 'r env =
  http :: "request \<Rightarrow> 'r \<Rightarrow> json \<times> 'r"
  elapse :: "nat \<Rightarrow> 'r \<Rightarrow> 'r"
  DATACENTER :: string
  listdir :: "string \<Rightarrow> string list option"
  user_data :: "string \<Rightarrow> string \<Rightarrow> error + string"
  random :: "nat \<Rightarrow> nat"
  repr :: "json \<Rightarrow> string"

text \<open>
  The state a run threads through: the remote side, the requests and sleeps issued so
  far (oldest first), the dictionary \<^verbatim>\<open>json_files\<close> that every operation receives by
  reference, and the number of random draws made.
\<close>

record 'r state =
  remote :: 'r
  trace :: "event list"
  json_files :: json
  draws :: nat

text \<open>
  \<^verbatim>\<open>f"{name}"\<close>: a string is itself, \<^verbatim>\<open>None\<close>, \<^verbatim>\<open>True\<close>, \<^verbatim>\<open>False\<close> and the
  numbers print as Python prints them.
\<close>

fun py_format :: "'r env \<Rightarrow> json \<Rightarrow> string" where
  "py_format E (JStr s) = s"
| "py_format E JNull = ''None''"
| "py_format E (JBool b) = (if b then ''True'' else ''False'')"
| "py_format E (JNum i) = show_int i"
| "py_format E v = repr E v"

type_synonym ('r, 'a) prog = "'r state \<Rightarrow> (error + 'a) \<times> 'r state"

definition return :: "'a \<Rightarrow> ('r, 'a) prog" where
  "return x = (\<lambda>s. (Inr x, s))"

definition throw :: "error \<Rightarrow> ('r, 'a) prog" where
  "throw e = (\<lambda>s. (Inl e, s))"

definition lift :: "error + 'a \<Rightarrow> ('r, 'a) prog" where
  "lift r = (\<lambda>s. (r, s))"

definition bind :: "('r, 'a) prog \<Rightarrow> ('a \<Rightarrow> ('r, 'b) prog) \<Rightarrow> ('r, 'b) prog" where
  "bind m f = (\<lambda>s. case m s of (Inl e, s') \<Rightarrow> (Inl e, s') | (Inr x, s') \<Rightarrow> f x s')"

text \<open>\<^verbatim>\<open>try: m except KeyError: h\<close>.\<close>

definition except_KeyError :: "('r, 'a) prog \<Rightarrow> ('r, 'a) prog \<Rightarrow> ('r, 'a) prog" where
  "except_KeyError m h = (\<lambda>s. case m s of (Inl KeyError, s') \<Rightarrow> h s' | other \<Rightarrow> other)"

text \<open>
  \<^verbatim>\<open>requests.get/post/patch/delete\<close>: the request is recorded and the remote side
  answers. A URL that is not a string makes \<^verbatim>\<open>requests\<close> raise before anything is sent.
\<close>

definition send :: "'r env \<Rightarrow> request \<Rightarrow> ('r, json) prog" where
  "send E rq = (\<lambda>s. case http E rq (remote s) of
     (resp, r') \<Rightarrow> (Inr resp, s\<lparr>remote := r', trace := trace s @ [Request rq]\<rparr>))"

definition requests_get :: "'r env \<Rightarrow> json \<Rightarrow> ('r, json) prog" where
  "requests_get E url = (case url of JStr u \<Rightarrow> send E (GET u) | _ \<Rightarrow> throw InvalidURL)"

definition requests_post :: "'r env \<Rightarrow> json \<Rightarrow> json \<Rightarrow> ('r, json) prog" where
  "requests_post E url body = (case url of JStr u \<Rightarrow> send E (POST u body) | _ \<Rightarrow> throw InvalidURL)"

definition requests_patch :: "'r env \<Rightarrow> json \<Rightarrow> json \<Rightarrow> ('r, json) prog" where
  "requests_patch E url body = (case url of JStr u \<Rightarrow> send E (PATCH u body) | _ \<Rightarrow> throw InvalidURL)"

definition requests_delete :: "'r env \<Rightarrow> json \<Rightarrow> ('r, json) prog" where
  "requests_delete E url = (case url of JStr u \<Rightarrow> send E (DELETE u) | _ \<Rightarrow> throw InvalidURL)"

definition sleep :: "'r env \<Rightarrow> nat \<Rightarrow> ('r, unit) prog" where
  "sleep E n = (\<lambda>s. (Inr (), s\<lparr>remote := elapse E n (remote s), trace := trace s @ [Sleep n]\<rparr>))"

definition URL_DATACENTERS :: json where
  "URL_DATACENTERS = JStr ''https://api.ionos.com/cloudapi/v6/datacenters''"

section \<open>Name resolver, availability barrier, existence check\<close>

text \<open>\<^verbatim>\<open>name_to_href\<close>: the loop over the collection's items, then the whole function.\<close>

fun name_to_href_items :: "'r env \<Rightarrow> json \<Rightarrow> json list \<Rightarrow> ('r, json) prog" where
  "name_to_href_items E name [] = throw NotFound"
| "name_to_href_items E name (item # items) =
     bind (lift (getitem item ''href'')) (\<lambda>u.
     bind (requests_get E u) (\<lambda>href.
     bind (lift (getitem href ''properties'')) (\<lambda>props.
     bind (lift (getitem props ''name'')) (\<lambda>n.
       if py_eq n name then lift (getitem href ''href'')
       else name_to_href_items E name items))))"

definition name_to_href :: "'r env \<Rightarrow> json \<Rightarrow> json \<Rightarrow> ('r, json) prog" where
  "name_to_href E name api_url =
     bind (requests_get E api_url) (\<lambda>resp.
     bind (lift (getitem resp ''items'')) (\<lambda>its.
     bind (lift (py_iter its)) (\<lambda>items.
       name_to_href_items E name items)))"

text \<open>
  \<^verbatim>\<open>all_available\<close>. \<open>poll\<close> is the inner \<^verbatim>\<open>for href in hrefs\<close> with its
  \<^verbatim>\<open>break\<close>: it answers whether the flag \<^verbatim>\<open>all_available\<close> is still true after
  the round. A response without \<^verbatim>\<open>metadata\<close> or \<^verbatim>\<open>state\<close> counts as busy.
\<close>

definition status_of :: "json \<Rightarrow> error + json" where
  "status_of resp =
     (case getitem resp ''metadata'' of
        Inl KeyError \<Rightarrow> Inr (JStr ''BUSY'')
      | Inl e \<Rightarrow> Inl e
      | Inr md \<Rightarrow>
          (case getitem md ''state'' of
             Inl KeyError \<Rightarrow> Inr (JStr ''BUSY'')
           | Inl e \<Rightarrow> Inl e
           | Inr st \<Rightarrow> Inr st))"

fun poll :: "'r env \<Rightarrow> json list \<Rightarrow> ('r, bool) prog" where
  "poll E [] = return True"
| "poll E (href # hrefs) =
     bind (requests_get E href) (\<lambda>resp.
     bind (lift (status_of resp)) (\<lambda>status.
       if status \<noteq> JStr ''AVAILABLE'' then return False
       else poll E hrefs))"

text \<open>
  The \<^verbatim>\<open>while not all_available\<close> loop with \<open>limit\<close> attempts left. The flag is
  false when the loop is entered, so the first test of \<^verbatim>\<open>limit == 0\<close> is already
  inside the loop body.
\<close>

fun await :: "'r env \<Rightarrow> json list \<Rightarrow> nat \<Rightarrow> ('r, unit) prog" where
  "await E hrefs 0 = throw Timeout"
| "await E hrefs (Suc limit) =
     bind (sleep E 5) (\<lambda>_.
     bind (poll E hrefs) (\<lambda>ok.
       if ok then return () else await E hrefs limit))"

definition all_available :: "'r env \<Rightarrow> json list \<Rightarrow> ('r, unit) prog" where
  "all_available E hrefs = await E hrefs 120"

text \<open>\<^verbatim>\<open>server_exists\<close>.\<close>

fun server_exists_items :: "'r env \<Rightarrow> json \<Rightarrow> json list \<Rightarrow> ('r, bool) prog" where
  "server_exists_items E server_name [] = return False"
| "server_exists_items E server_name (item # items) =
     bind (lift (getitem item ''href'')) (\<lambda>u.
     bind (requests_get E u) (\<lambda>server.
     bind (lift (getitem server ''properties'')) (\<lambda>props.
     bind (lift (getitem props ''name'')) (\<lambda>n.
       if py_eq n server_name then return True
       else server_exists_items E server_name items))))"

definition server_exists :: "'r env \<Rightarrow> json \<Rightarrow> json \<Rightarrow> ('r, bool) prog" where
  "server_exists E server_name api_url =
     bind (requests_get E api_url) (\<lambda>resp.
     bind (lift (getitem resp ''items'')) (\<lambda>its.
     bind (lift (py_iter its)) (\<lambda>items.
       server_exists_items E server_name items)))"

section \<open>The reconciliation engine\<close>

subsection \<open>Shared pieces\<close>

text \<open>\<^verbatim>\<open>json_files[server_name + ".json"]\<close>, read from the shared dictionary as it is now.\<close>

definition json_file :: "json \<Rightarrow> ('r, json) prog" where
  "json_file server_name =
     bind (lift (py_add server_name (JStr ''.json''))) (\<lambda>key.
     bind (lift (as_str key)) (\<lambda>k.
       (\<lambda>s. (getitem (json_files s) k, s))))"

text \<open>
  \<^verbatim>\<open>"".join(random.choices(string.ascii_uppercase + string.ascii_lowercase +
  string.digits, k=32))\<close>.
\<close>

definition alphabet :: string where
  "alphabet = ''ABCDEFGHIJKLMNOPQRSTUVWXYZabcdefghijklmnopqrstuvwxyz0123456789''"

definition random_password :: "'r env \<Rightarrow> ('r, string) prog" where
  "random_password E = (\<lambda>s.
     (Inr (map (\<lambda>i. alphabet ! (random E (draws s + i) mod length alphabet)) [0..<32]),
      s\<lparr>draws := draws s + 32\<rparr>))"

definition cloud_configs_dir :: "'r env \<Rightarrow> string" where
  "cloud_configs_dir E = ''/datacenters/'' @ DATACENTER E @ ''/cloud-configs/''"

definition os_listdir :: "'r env \<Rightarrow> string \<Rightarrow> error + string list" where
  "os_listdir E dir = (case listdir E dir of None \<Rightarrow> Inl FileNotFoundError | Some fs \<Rightarrow> Inr fs)"

text \<open>\<^verbatim>\<open>s.endswith(suffix)\<close> on a value: only a string has the method.\<close>

fun py_endswith :: "json \<Rightarrow> string \<Rightarrow> error + bool" where
  "py_endswith (JStr s) suf = Inr (endswith s suf)"
| "py_endswith _ suf = Inl AttributeError"

text \<open>
  \<^verbatim>\<open>URL_SERVERS = name_to_href(os.environ.get("DATACENTER"), URL_DATACENTERS, ...) +
  "/servers"\<close>, as the single-component operations compute it.
\<close>

definition url_servers :: "'r env \<Rightarrow> ('r, json) prog" where
  "url_servers E =
     bind (name_to_href E (JStr (DATACENTER E)) URL_DATACENTERS) (\<lambda>href.
       lift (py_add href (JStr ''/servers'')))"

subsection \<open>\<^verbatim>\<open>create_single\<close>\<close>

text \<open>
  The creation payload is built in \<^verbatim>\<open>server_deepcopy\<close>, a copy of the server's
  entry: the three loops below change the copy and never \<^verbatim>\<open>json_files\<close>. Each loop
  changes the elements it iterates over in place; \<open>put_items\<close> is where those elements
  live in the copy when the container is a list (the keys of a dictionary and the
  characters of a string are not part of the copy, and changing one raises).
\<close>

definition put_items :: "json \<Rightarrow> string list \<Rightarrow> json \<Rightarrow> json list \<Rightarrow> error + json" where
  "put_items obj path container items' =
     (case container of JList _ \<Rightarrow> set_in obj path (JList items') | _ \<Rightarrow> Inr obj)"

text \<open>First loop: \<^verbatim>\<open>if "firewallrules" in item: del item["firewallrules"]\<close>.\<close>

fun strip_firewallrules :: "json list \<Rightarrow> error + json list" where
  "strip_firewallrules [] = Inr []"
| "strip_firewallrules (item # items) =
     and_then (py_in (JStr ''firewallrules'') item) (\<lambda>present.
     and_then (if present then delitem item ''firewallrules'' else Inr item) (\<lambda>item'.
     and_then (strip_firewallrules items) (\<lambda>items'. Inr (item' # items'))))"

definition without_firewallrules :: "json \<Rightarrow> error + json" where
  "without_firewallrules server =
     and_then (get_in server [''entities'', ''nics'', ''items'']) (\<lambda>container.
     and_then (py_iter container) (\<lambda>items.
     and_then (strip_firewallrules items) (\<lambda>items'.
       put_items server [''entities'', ''nics'', ''items''] container items')))"

text \<open>
  Second loop, inside \<^verbatim>\<open>try: ... except KeyError: pass\<close>. \<open>password_item\<close> is the
  loop body. \<open>set_passwords\<close> is the \<^verbatim>\<open>for\<close> loop: it returns the items as they are
  when the loop ends and the exception that ended it, if one did; the items after the
  one that raised are not visited.
\<close>

definition password_item :: "'r env \<Rightarrow> json \<Rightarrow> ('r, json) prog" where
  "password_item E item =
     bind (lift (getitem item ''properties'')) (\<lambda>props.
     bind (lift (getitem props ''imagePassword'')) (\<lambda>pw.
       if pw = JNull then
         bind (random_password E) (\<lambda>p.
         bind (lift (setitem props ''imagePassword'' (JStr p))) (\<lambda>props'.
           lift (setitem item ''properties'' props')))
       else return item))"

fun set_passwords :: "'r env \<Rightarrow> json list \<Rightarrow> ('r, json list \<times> error option) prog" where
  "set_passwords E [] = return ([], None)"
| "set_passwords E (item # items) = (\<lambda>s.
     case password_item E item s of
       (Inl e, s') \<Rightarrow> (Inr (item # items, Some e), s')
     | (Inr item', s') \<Rightarrow>
         bind (set_passwords E items) (\<lambda>(items', raised). return (item' # items', raised)) s')"

definition generate_passwords :: "'r env \<Rightarrow> json \<Rightarrow> ('r, json) prog" where
  "generate_passwords E server =
     (case get_in server [''entities'', ''volumes'', ''items''] of
        Inl e \<Rightarrow> if e = KeyError then return server else throw e
      | Inr container \<Rightarrow>
          bind (lift (py_iter container)) (\<lambda>items.
          bind (set_passwords E items) (\<lambda>(items', raised).
          bind (lift (put_items server [''entities'', ''volumes'', ''items''] container items'))
            (\<lambda>server'.
              case raised of
                None \<Rightarrow> return server'
              | Some e \<Rightarrow> if e = KeyError then return server' else throw e))))"

text \<open>
  Third loop: \<^verbatim>\<open>if file_name in os.listdir(dir) and "-boot" in name:
  item["properties"]["userData"] = user_data(dir, file_name)\<close>.
\<close>

definition boot_script_item :: "'r env \<Rightarrow> json \<Rightarrow> error + json" where
  "boot_script_item E item =
     and_then (get_in item [''properties'', ''name'']) (\<lambda>name.
     and_then (os_listdir E (cloud_configs_dir E)) (\<lambda>files.
       if py_format E name @ ''.yaml'' \<in> set files then
         and_then (py_in (JStr ''-boot'') name) (\<lambda>boot.
           if boot then
             and_then (user_data E (cloud_configs_dir E) (py_format E name @ ''.yaml''))
               (\<lambda>blob.
             and_then (getitem item ''properties'') (\<lambda>props.
             and_then (setitem props ''userData'' (JStr blob)) (\<lambda>props'.
               setitem item ''properties'' props')))
           else Inr item)
       else Inr item))"

fun boot_scripts :: "'r env \<Rightarrow> json list \<Rightarrow> error + json list" where
  "boot_scripts E [] = Inr []"
| "boot_scripts E (item # items) =
     and_then (boot_script_item E item) (\<lambda>item'.
     and_then (boot_scripts E items) (\<lambda>items'. Inr (item' # items')))"

definition attach_boot_scripts :: "'r env \<Rightarrow> json \<Rightarrow> error + json" where
  "attach_boot_scripts E server =
     and_then (get_in server [''entities'', ''volumes'', ''items'']) (\<lambda>container.
     and_then (py_iter container) (\<lambda>items.
     and_then (boot_scripts E items) (\<lambda>items'.
       put_items server [''entities'', ''volumes'', ''items''] container items')))"

definition creation_payload :: "'r env \<Rightarrow> json \<Rightarrow> ('r, json) prog" where
  "creation_payload E server =
     bind (lift (without_firewallrules server)) (\<lambda>stripped.
     bind (generate_passwords E stripped) (\<lambda>with_passwords.
       lift (attach_boot_scripts E with_passwords)))"

definition create_single :: "'r env \<Rightarrow> json \<Rightarrow> json \<Rightarrow> ('r, json) prog" where
  "create_single E server_name api_url =
     bind (json_file server_name) (\<lambda>jf.
     bind (lift (getitem jf ''server'')) (\<lambda>server.
     bind (creation_payload E server) (\<lambda>server_deepcopy.
     bind (requests_post E api_url server_deepcopy) (\<lambda>res.
     bind (lift (getitem res ''href'')) (\<lambda>href.
     bind (all_available E [href]) (\<lambda>_.
       return href))))))"

subsection \<open>\<^verbatim>\<open>attach_single\<close> and \<^verbatim>\<open>attach\<close>\<close>

text \<open>
  The guard of \<^verbatim>\<open>attach_single\<close> (up to the second \<^verbatim>\<open>exit(1)\<close>); it returns the
  list \<^verbatim>\<open>components\<close>.
\<close>

definition attach_guard :: "'r env \<Rightarrow> json \<Rightarrow> json \<Rightarrow> string \<Rightarrow> ('r, json list) prog" where
  "attach_guard E server_name name type =
     bind (url_servers E) (\<lambda>URL_SERVERS.
     bind (server_exists E server_name URL_SERVERS) (\<lambda>found.
       if \<not> found then throw NotFound
       else
         bind (json_file server_name) (\<lambda>jf.
         bind (lift (getitem jf type)) (\<lambda>declared.
         bind (lift (py_iter declared)) (\<lambda>ts.
         bind (lift (names_of ts)) (\<lambda>components.
           if \<not> py_mem name components then throw NotFound
           else return components))))))"

text \<open>
  \<^verbatim>\<open>json_file[type][idx]["properties"]\<close> and the assignment
  \<^verbatim>\<open>json_file[type][idx]["properties"][key] = v\<close>. \<^verbatim>\<open>json_file\<close> is the entry of
  \<^verbatim>\<open>json_files\<close> itself, not a copy, so the assignment changes \<^verbatim>\<open>json_files\<close>.
\<close>

definition component_properties :: "json \<Rightarrow> string \<Rightarrow> nat \<Rightarrow> ('r, json) prog" where
  "component_properties server_name type idx =
     bind (json_file server_name) (\<lambda>jf.
     bind (lift (getitem jf type)) (\<lambda>declared.
     bind (lift (getindex declared idx)) (\<lambda>item.
       lift (getitem item ''properties''))))"

definition assign_property ::
  "json \<Rightarrow> string \<Rightarrow> string \<Rightarrow> nat \<Rightarrow> string \<Rightarrow> json \<Rightarrow> error + json" where
  "assign_property files k type idx key v =
     and_then (getitem files k) (\<lambda>jf.
     and_then (getitem jf type) (\<lambda>declared.
     and_then (getindex declared idx) (\<lambda>item.
     and_then (getitem item ''properties'') (\<lambda>props.
     and_then (setitem props key v) (\<lambda>props'.
     and_then (setitem item ''properties'' props') (\<lambda>item'.
     and_then (setindex declared idx item') (\<lambda>declared'.
     and_then (setitem jf type declared') (\<lambda>jf'.
       setitem files k jf'))))))))"

definition set_component_property ::
  "json \<Rightarrow> string \<Rightarrow> nat \<Rightarrow> string \<Rightarrow> json \<Rightarrow> ('r, unit) prog" where
  "set_component_property server_name type idx key v =
     bind (lift (py_add server_name (JStr ''.json''))) (\<lambda>file_key.
     bind (lift (as_str file_key)) (\<lambda>k.
       (\<lambda>s. case assign_property (json_files s) k type idx key v of
               Inl e \<Rightarrow> (Inl e, s)
             | Inr files' \<Rightarrow> (Inr (), s\<lparr>json_files := files'\<rparr>))))"

text \<open>
  From \<^verbatim>\<open>url_type = href + "/" + type\<close> to the \<^verbatim>\<open>requests.post\<close>; it returns the
  parsed response \<^verbatim>\<open>component\<close>. The \<^verbatim>\<open>print\<close> before the request concatenates
  \<^verbatim>\<open>name\<close>, which raises unless it is a string.
\<close>

definition attach_component ::
  "'r env \<Rightarrow> json \<Rightarrow> json \<Rightarrow> json \<Rightarrow> string \<Rightarrow> json list \<Rightarrow> ('r, json) prog" where
  "attach_component E href server_name name type components =
     bind (lift (and_then (py_add href (JStr ''/'')) (\<lambda>u. py_add u (JStr type)))) (\<lambda>url_type.
     bind (lift (index_of components name)) (\<lambda>idx.
     bind (except_KeyError
             (if type = ''volumes'' then
                bind (component_properties server_name type idx) (\<lambda>props.
                bind (lift (getitem props ''imagePassword'')) (\<lambda>pw.
                  if pw = JNull then
                    bind (random_password E) (\<lambda>p.
                      set_component_property server_name type idx ''imagePassword'' (JStr p))
                  else return ()))
              else return ())
             (return ())) (\<lambda>_.
     bind (if type = ''volumes'' then
             bind (lift (os_listdir E (cloud_configs_dir E))) (\<lambda>files.
               if py_format E server_name @ ''-boot.yaml'' \<in> set files then
                 bind (lift (py_in (JStr ''-boot'') name)) (\<lambda>boot.
                   if boot then
                     bind (lift (user_data E (cloud_configs_dir E)
                                   (py_format E server_name @ ''-boot.yaml''))) (\<lambda>blob.
                       set_component_property server_name type idx ''userData'' (JStr blob))
                   else return ())
               else return ())
           else return ()) (\<lambda>_.
     bind (lift (as_str name)) (\<lambda>_.
     bind (component_properties server_name type idx) (\<lambda>props.
       requests_post E url_type (JDict [(''properties'', props)])))))))"

text \<open>
  The rest of \<^verbatim>\<open>attach_single\<close>: wait, make the new volume the boot device if
  the name in the response ends with \<^verbatim>\<open>-boot\<close>, wait again.
\<close>

definition make_boot_device :: "'r env \<Rightarrow> json \<Rightarrow> string \<Rightarrow> json \<Rightarrow> ('r, unit) prog" where
  "make_boot_device E href type component =
     bind (all_available E [href]) (\<lambda>_.
     bind (if type = ''volumes'' then
             bind (lift (get_in component [''properties'', ''name''])) (\<lambda>n.
             bind (lift (py_endswith n ''-boot'')) (\<lambda>boot.
               if boot then
                 bind (lift (getitem component ''id'')) (\<lambda>i.
                 bind (requests_patch E href (JDict [(''bootVolume'', JDict [(''id'', i)])]))
                   (\<lambda>_. return ()))
               else return ()))
           else return ()) (\<lambda>_.
       all_available E [href]))"

definition attach_single ::
  "'r env \<Rightarrow> json \<Rightarrow> json \<Rightarrow> json \<Rightarrow> string \<Rightarrow> ('r, unit) prog" where
  "attach_single E href server_name name type =
     bind (attach_guard E server_name name type) (\<lambda>components.
     bind (attach_component E href server_name name type components) (\<lambda>component.
       make_boot_device E href type component))"

text \<open>
  \<^verbatim>\<open>attach\<close>. The loop runs over the elements of \<^verbatim>\<open>json_files[...][type]\<close>;
  \<^verbatim>\<open>attach_single\<close> changes the \<^verbatim>\<open>imagePassword\<close> and \<^verbatim>\<open>userData\<close> of elements
  but neither the list nor a name, so the names the loop reads are those of the list
  as it was when the loop began.
\<close>

fun attach_items :: "'r env \<Rightarrow> json \<Rightarrow> json \<Rightarrow> string \<Rightarrow> json list \<Rightarrow> ('r, unit) prog" where
  "attach_items E api_url server_name type [] = return ()"
| "attach_items E api_url server_name type (t # ts) =
     bind (lift (get_in t [''properties'', ''name''])) (\<lambda>name.
     bind (attach_single E api_url server_name name type) (\<lambda>_.
       attach_items E api_url server_name type ts))"

definition attach :: "'r env \<Rightarrow> string \<Rightarrow> json \<Rightarrow> ('r, unit) prog" where
  "attach E type api_url =
     bind (requests_get E api_url) (\<lambda>server.
     bind (lift (get_in server [''properties'', ''name''])) (\<lambda>server_name.
     bind (json_file server_name) (\<lambda>jf.
     bind (lift (getitem jf type)) (\<lambda>declared.
     bind (lift (py_iter declared)) (\<lambda>ts.
       attach_items E api_url server_name type ts)))))"

subsection \<open>Firewall rules\<close>

text \<open>
  \<^verbatim>\<open>set(rules_names)\<close> needs hashable elements; \<open>py_set_len\<close> is the size of the set.
\<close>

fun hashable :: "json \<Rightarrow> bool" where
  "hashable (JList xs) = False"
| "hashable (JDict kvs) = False"
| "hashable _ = True"

fun py_dedup :: "json list \<Rightarrow> json list" where
  "py_dedup [] = []"
| "py_dedup (x # xs) = (if py_mem x xs then py_dedup xs else x # py_dedup xs)"

definition py_set_len :: "json list \<Rightarrow> error + nat" where
  "py_set_len xs = (if list_all hashable xs then Inr (length (py_dedup xs)) else Inl TypeError)"

text \<open>\<^verbatim>\<open>fwrules_create_single\<close>: the inner loop over the rules of a matching NIC.\<close>

fun post_rules ::
  "'r env \<Rightarrow> json \<Rightarrow> json \<Rightarrow> json \<Rightarrow> json \<Rightarrow> json list \<Rightarrow> ('r, unit) prog" where
  "post_rules E name server_name nic_name URL_SERVERS [] = return ()"
| "post_rules E name server_name nic_name URL_SERVERS (rule # rules) =
     bind (lift (get_in rule [''properties'', ''name''])) (\<lambda>n.
     bind (if py_eq n name then
             bind (name_to_href E server_name URL_SERVERS) (\<lambda>h.
             bind (lift (py_add h (JStr ''/nics''))) (\<lambda>nic_href.
             bind (name_to_href E nic_name nic_href) (\<lambda>h'.
             bind (lift (py_add h' (JStr ''/firewallrules''))) (\<lambda>fw_href.
             bind (requests_post E fw_href rule) (\<lambda>_.
             bind (name_to_href E server_name URL_SERVERS) (\<lambda>server_href.
               all_available E [server_href]))))))
           else return ()) (\<lambda>_.
       post_rules E name server_name nic_name URL_SERVERS rules))"

text \<open>The outer loop \<^verbatim>\<open>for nic in nics\<close> with the duplicate-name check.\<close>

fun scan_nics ::
  "'r env \<Rightarrow> json \<Rightarrow> json \<Rightarrow> json \<Rightarrow> json \<Rightarrow> json list \<Rightarrow> ('r, unit) prog" where
  "scan_nics E name server_name nic_name URL_SERVERS [] = return ()"
| "scan_nics E name server_name nic_name URL_SERVERS (nic # nics) =
     bind (lift (get_in nic [''properties'', ''name''])) (\<lambda>n.
     bind (if py_eq nic_name n then
             bind (lift (getitem nic ''firewallrules'')) (\<lambda>rules.
             bind (lift (py_iter rules)) (\<lambda>rs.
             bind (lift (names_of rs)) (\<lambda>rules_names.
             bind (lift (py_set_len rules_names)) (\<lambda>len_set.
             bind (lift (py_len rules)) (\<lambda>len_rules.
               if len_set \<noteq> len_rules then throw DuplicateName
               else post_rules E name server_name nic_name URL_SERVERS rs)))))
           else return ()) (\<lambda>_.
       scan_nics E name server_name nic_name URL_SERVERS nics))"

text \<open>
  \<^verbatim>\<open>json_files[...]["nics"] + json_files[...]["server"]["entities"]["nics"]["items"]\<close>,
  iterated.
\<close>

definition declared_nics :: "json \<Rightarrow> ('r, json list) prog" where
  "declared_nics server_name =
     bind (json_file server_name) (\<lambda>jf.
     bind (lift (getitem jf ''nics'')) (\<lambda>standalone.
     bind (json_file server_name) (\<lambda>jf'.
     bind (lift (get_in jf' [''server'', ''entities'', ''nics'', ''items''])) (\<lambda>embedded.
     bind (lift (py_add standalone embedded)) (\<lambda>nics.
       lift (py_iter nics))))))"

definition fwrules_create_single ::
  "'r env \<Rightarrow> json \<Rightarrow> json \<Rightarrow> json \<Rightarrow> ('r, unit) prog" where
  "fwrules_create_single E name server_name nic_name =
     bind (url_servers E) (\<lambda>URL_SERVERS.
     bind (server_exists E server_name URL_SERVERS) (\<lambda>found.
       if \<not> found then throw NotFound
       else
         bind (declared_nics server_name) (\<lambda>nics.
           scan_nics E name server_name nic_name URL_SERVERS nics)))"

text \<open>\<^verbatim>\<open>fwrules_create\<close>: the loop over the rules of one NIC, the loop over the NICs.\<close>

fun create_rules :: "'r env \<Rightarrow> json \<Rightarrow> json \<Rightarrow> json list \<Rightarrow> ('r, unit) prog" where
  "create_rules E server_name nic [] = return ()"
| "create_rules E server_name nic (firewallrule # rest) =
     bind (lift (get_in firewallrule [''properties'', ''name''])) (\<lambda>name.
     bind (lift (get_in nic [''properties'', ''name''])) (\<lambda>nic_name.
     bind (fwrules_create_single E name server_name nic_name) (\<lambda>_.
       create_rules E server_name nic rest)))"

fun create_nics :: "'r env \<Rightarrow> json \<Rightarrow> json list \<Rightarrow> ('r, unit) prog" where
  "create_nics E server_name [] = return ()"
| "create_nics E server_name (nic # nics) =
     bind (lift (py_in (JStr ''firewallrules'') nic)) (\<lambda>present.
     bind (if present then
             bind (lift (getitem nic ''firewallrules'')) (\<lambda>rules.
             bind (lift (py_iter rules)) (\<lambda>rs.
               create_rules E server_name nic rs))
           else return ()) (\<lambda>_.
       create_nics E server_name nics))"

definition fwrules_create :: "'r env \<Rightarrow> json \<Rightarrow> ('r, unit) prog" where
  "fwrules_create E server_name =
     bind (declared_nics server_name) (\<lambda>nics.
       create_nics E server_name nics)"

subsection \<open>\<^verbatim>\<open>create\<close>\<close>

definition create :: "'r env \<Rightarrow> json \<Rightarrow> json \<Rightarrow> ('r, unit) prog" where
  "create E server_name api_url =
     bind (server_exists E server_name api_url) (\<lambda>found.
       if found then throw AlreadyExists
       else
         bind (create_single E server_name api_url) (\<lambda>href.
         bind (attach E ''volumes'' href) (\<lambda>_.
         bind (attach E ''nics'' href) (\<lambda>_.
           fwrules_create E server_name))))"

subsection \<open>\<^verbatim>\<open>detach_single\<close>, \<^verbatim>\<open>detach\<close>, \<^verbatim>\<open>delete_single\<close>, \<^verbatim>\<open>delete\<close>\<close>

text \<open>
  The guard of \<^verbatim>\<open>detach_single\<close> (up to the second \<^verbatim>\<open>exit(1)\<close>); it returns
  \<^verbatim>\<open>URL_SERVERS\<close>, which the rest of the function uses.
\<close>

definition detach_guard :: "'r env \<Rightarrow> json \<Rightarrow> json \<Rightarrow> string \<Rightarrow> ('r, json) prog" where
  "detach_guard E server_name name type =
     bind (url_servers E) (\<lambda>URL_SERVERS.
     bind (server_exists E server_name URL_SERVERS) (\<lambda>found.
       if \<not> found then throw NotFound
       else
         bind (json_file server_name) (\<lambda>jf.
         bind (lift (getitem jf type)) (\<lambda>declared.
         bind (lift (get_in jf [''server'', ''entities'', type, ''items''])) (\<lambda>embedded.
         bind (lift (py_add declared embedded)) (\<lambda>both.
         bind (lift (py_iter both)) (\<lambda>ts.
         bind (lift (names_of ts)) (\<lambda>components.
           if \<not> py_mem name components then throw NotFound
           else return URL_SERVERS))))))))"

definition detach_single ::
  "'r env \<Rightarrow> json \<Rightarrow> json \<Rightarrow> json \<Rightarrow> string \<Rightarrow> ('r, unit) prog" where
  "detach_single E href server_name name type =
     bind (detach_guard E server_name name type) (\<lambda>URL_SERVERS.
     bind (lift (as_str name)) (\<lambda>_.
     bind (requests_delete E href) (\<lambda>_.
     bind (name_to_href E server_name URL_SERVERS) (\<lambda>server_href.
       all_available E [server_href]))))"

fun detach_items :: "'r env \<Rightarrow> json \<Rightarrow> string \<Rightarrow> json list \<Rightarrow> ('r, unit) prog" where
  "detach_items E server_name type [] = return ()"
| "detach_items E server_name type (item # items) =
     bind (lift (getitem item ''href'')) (\<lambda>item_href.
     bind (requests_get E item_href) (\<lambda>resp.
     bind (lift (get_in resp [''properties'', ''name''])) (\<lambda>item_name.
     bind (detach_single E item_href server_name item_name type) (\<lambda>_.
       detach_items E server_name type items))))"

text \<open>
  The first lines of \<^verbatim>\<open>detach\<close>: the server's name and the items now attached
  remotely.
\<close>

definition attached_items :: "'r env \<Rightarrow> string \<Rightarrow> json \<Rightarrow> ('r, json \<times> json list) prog" where
  "attached_items E type api_url =
     bind (requests_get E api_url) (\<lambda>server.
     bind (lift (get_in server [''properties'', ''name''])) (\<lambda>server_name.
     bind (lift (and_then (py_add api_url (JStr ''/'')) (\<lambda>u. py_add u (JStr type)))) (\<lambda>url_type.
     bind (requests_get E url_type) (\<lambda>resp.
     bind (lift (getitem resp ''items'')) (\<lambda>its.
     bind (lift (py_iter its)) (\<lambda>items.
       return (server_name, items)))))))"

definition detach :: "'r env \<Rightarrow> string \<Rightarrow> json \<Rightarrow> ('r, unit) prog" where
  "detach E type api_url =
     bind (attached_items E type api_url) (\<lambda>(server_name, items).
       detach_items E server_name type items)"

definition delete_single :: "'r env \<Rightarrow> json \<Rightarrow> ('r, unit) prog" where
  "delete_single E server_object =
     bind (lift (and_then (get_in server_object [''properties'', ''name'']) as_str)) (\<lambda>_.
     bind (lift (getitem server_object ''href'')) (\<lambda>href.
     bind (requests_delete E href) (\<lambda>_.
       return ())))"

definition delete :: "'r env \<Rightarrow> json \<Rightarrow> json \<Rightarrow> ('r, unit) prog" where
  "delete E server_name api_url =
     bind (server_exists E server_name api_url) (\<lambda>found.
       if \<not> found then throw NotFound
       else
         bind (name_to_href E server_name api_url) (\<lambda>server_href.
         bind (requests_get E server_href) (\<lambda>server_object.
         bind (all_available E [server_href]) (\<lambda>_.
         bind (detach E ''nics'' server_href) (\<lambda>_.
         bind (detach E ''volumes'' server_href) (\<lambda>_.
           delete_single E server_object))))))"

section \<open>Observing a run\<close>

text \<open>
  \<open>emits P m\<close>: whatever the state and the remote side, a run of \<open>m\<close> only appends to
  the trace, and every event it appends satisfies \<open>P\<close>. \<open>keeps_files m\<close>: a run of
  \<open>m\<close> leaves \<^verbatim>\<open>json_files\<close> as it found it.
\<close>

definition emits :: "(event \<Rightarrow> bool) \<Rightarrow> ('r, 'a) prog \<Rightarrow> bool" where
  "emits P m = (\<forall>s. \<exists>evs. trace (snd (m s)) = trace s @ evs \<and> list_all P evs)"

definition keeps_files :: "('r, 'a) prog \<Rightarrow> bool" where
  "keeps_files m = (\<forall>s. json_files (snd (m s)) = json_files s)"

definition is_get :: "event \<Rightarrow> bool" where
  "is_get e = (case e of Request (GET u) \<Rightarrow> True | _ \<Rightarrow> False)"

definition is_post :: "event \<Rightarrow> bool" where
  "is_post e = (case e of Request (POST u b) \<Rightarrow> True | _ \<Rightarrow> False)"

definition is_patch :: "event \<Rightarrow> bool" where
  "is_patch e = (case e of Request (PATCH u b) \<Rightarrow> True | _ \<Rightarrow> False)"

definition is_delete :: "event \<Rightarrow> bool" where
  "is_delete e = (case e of Request (DELETE u) \<Rightarrow> True | _ \<Rightarrow> False)"

definition is_sleep :: "event \<Rightarrow> bool" where
  "is_sleep e = (case e of Sleep n \<Rightarrow> True | _ \<Rightarrow> False)"

text \<open>A mutating call is a POST, a PATCH or a DELETE; a GET and a sleep change nothing.\<close>

definition read_only :: "event \<Rightarrow> bool" where
  "read_only e = (is_get e \<or> is_sleep e)"

definition gets :: "string list \<Rightarrow> event list" where
  "gets urls = map (\<lambda>u. Request (GET u)) urls"

text \<open>The events a run appended: the trace after it, without the trace before it.\<close>

definition emitted :: "'r state \<Rightarrow> 'r state \<Rightarrow> event list" where
  "emitted s s' = drop (length (trace s)) (trace s')"

section \<open>Example worlds\<close>

text \<open>
  A remote side that never changes: a GET is answered from a table (an unknown URL
  with an empty object), a POST with a fixed response.
\<close>

definition table_env :: "(string \<times> json) list \<Rightarrow> json \<Rightarrow> unit env" where
  "table_env table created =
     \<lparr> http = (\<lambda>rq r. (case rq of
                 GET u \<Rightarrow> (case map_of table u of Some j \<Rightarrow> j | None \<Rightarrow> JDict [])
               | POST u b \<Rightarrow> created
               | _ \<Rightarrow> JNull, r)),
       elapse = (\<lambda>n r. r),
       DATACENTER = ''dc1'',
       listdir = (\<lambda>d. Some []),
       user_data = (\<lambda>d f. Inr ''blob''),
       random = (\<lambda>i. i),
       repr = (\<lambda>v. []) \<rparr>"

definition item :: "string \<Rightarrow> json" where
  "item href = JDict [(''href'', JStr href)]"

definition resource :: "string \<Rightarrow> string \<Rightarrow> json" where
  "resource href name =
     JDict [(''href'', JStr href), (''id'', JStr href),
            (''properties'', JDict [(''name'', JStr name)]),
            (''metadata'', JDict [(''state'', JStr ''AVAILABLE'')])]"

text \<open>
  Datacenter \<open>dc1\<close> holds one server, \<open>web1\<close>, with one NIC attached, \<open>extra\<close>, and no
  volume.
\<close>

definition dc1_table :: "(string \<times> json) list" where
  "dc1_table =
     [(''https://api.ionos.com/cloudapi/v6/datacenters'', JDict [(''items'', JList [item ''dc''])]),
      (''dc'', resource ''dc'' ''dc1''),
      (''dc/servers'', JDict [(''items'', JList [item ''srv''])]),
      (''srv'', resource ''srv'' ''web1''),
      (''srv/nics'', JDict [(''items'', JList [item ''nic''])]),
      (''nic'', resource ''nic'' ''extra''),
      (''srv/volumes'', JDict [(''items'', JList [])])]"

definition start :: "json \<Rightarrow> unit state" where
  "start files = \<lparr> remote = (), trace = [], json_files = files, draws = 0 \<rparr>"

text \<open>
  One round of the barrier's loop: the sleep, then the poll of the hrefs.
  \<open>after_rounds E hrefs k s\<close> is the state \<open>k\<close> rounds after \<open>s\<close>, and
  \<open>sleeps\<close> counts the sleep intervals among events.
\<close>

definition polling_round :: "'r env \<Rightarrow> json list \<Rightarrow> ('r, bool) prog" where
  "polling_round E hrefs = bind (sleep E 5) (\<lambda>_. poll E hrefs)"

fun after_rounds :: "'r env \<Rightarrow> json list \<Rightarrow> nat \<Rightarrow> 'r state \<Rightarrow> 'r state" where
  "after_rounds E hrefs 0 s = s"
| "after_rounds E hrefs (Suc k) s = after_rounds E hrefs k (snd (polling_round E hrefs s))"

definition sleeps :: "event list \<Rightarrow> nat" where
  "sleeps evs = length (filter is_sleep evs)"

text \<open>
  A remote side that counts the GETs it has answered and reports \<open>BUSY\<close> for the
  first \<open>busy_polls\<close> of them, \<open>AVAILABLE\<close> afterwards.
\<close>

definition settling_env :: "nat \<Rightarrow> nat env" where
  "settling_env busy_polls =
     \<lparr> http = (\<lambda>rq n. (case rq of
                 GET u \<Rightarrow> JDict [(''metadata'', JDict [(''state'',
                            JStr (if n < busy_polls then ''BUSY'' else ''AVAILABLE''))])]
               | _ \<Rightarrow> JNull, Suc n)),
       elapse = (\<lambda>n r. r),
       DATACENTER = ''dc1'',
       listdir = (\<lambda>d. Some []),
       user_data = (\<lambda>d f. Inr ''blob''),
       random = (\<lambda>i. i),
       repr = (\<lambda>v. []) \<rparr>"

definition settling_start :: "nat state" where
  "settling_start = \<lparr> remote = 0, trace = [], json_files = JDict [], draws = 0 \<rparr>"

text \<open>
  The declared configuration of server \<open>web1\<close>. Embedded in the server entry: a data
  volume without an \<^verbatim>\<open>imagePassword\<close> key, then a volume \<open>web1-boot-old\<close> whose
  \<^verbatim>\<open>imagePassword\<close> is null, and the NIC \<open>lan\<close>. Standalone: the volume \<open>data1\<close>
  with a null \<^verbatim>\<open>imagePassword\<close>, and the NIC \<open>lan\<close> again, with the same firewall
  rule \<open>ssh\<close>.
\<close>

definition named :: "string \<Rightarrow> (string \<times> json) list \<Rightarrow> json" where
  "named name props = JDict [(''properties'', JDict ((''name'', JStr name) # props))]"

definition lan_nic :: "json list \<Rightarrow> json" where
  "lan_nic rules =
     JDict [(''properties'', JDict [(''name'', JStr ''lan'')]), (''firewallrules'', JList rules)]"

definition web1_entry :: json where
  "web1_entry =
     JDict [(''properties'', JDict [(''name'', JStr ''web1'')]),
            (''entities'', JDict
               [(''volumes'', JDict [(''items'', JList
                   [named ''web1-data'' [],
                    named ''web1-boot-old'' [(''imagePassword'', JNull)]])]),
                (''nics'', JDict [(''items'', JList [lan_nic [named ''ssh'' []]])])])]"

definition web1_files :: json where
  "web1_files =
     JDict [(''web1.json'', JDict
       [(''server'', web1_entry),
        (''volumes'', JList [named ''data1'' [(''imagePassword'', JNull)]]),
        (''nics'', JList [lan_nic [named ''ssh'' []]])])]"


text \<open>
  What a configuration declares: the property \<open>key\<close> of the \<open>idx\<close>-th standalone
  component of a type in \<^verbatim>\<open>json_files\<close>, and of the \<open>idx\<close>-th volume embedded in a
  server entry or in a creation payload.
\<close>

definition declared_property ::
  "json \<Rightarrow> string \<Rightarrow> string \<Rightarrow> nat \<Rightarrow> string \<Rightarrow> error + json" where
  "declared_property files file_key type idx key =
     and_then (get_in files [file_key, type]) (\<lambda>declared.
     and_then (getindex declared idx) (\<lambda>item.
       get_in item [''properties'', key]))"

definition embedded_property :: "json \<Rightarrow> nat \<Rightarrow> string \<Rightarrow> error + json" where
  "embedded_property server idx key =
     and_then (get_in server [''entities'', ''volumes'', ''items'']) (\<lambda>vols.
     and_then (getindex vols idx) (\<lambda>item.
       get_in item [''properties'', key]))"

text \<open>The payload that \<^verbatim>\<open>create_single\<close> posts for \<open>web1_entry\<close>.\<close>

definition web1_payload :: json where
  "web1_payload =
     JDict [(''properties'', JDict [(''name'', JStr ''web1'')]),
            (''entities'', JDict
               [(''volumes'', JDict [(''items'', JList
                   [named ''web1-data'' [],
                    named ''web1-boot-old'' [(''imagePassword'', JNull)]])]),
                (''nics'', JDict [(''items'', JList
                   [JDict [(''properties'', JDict [(''name'', JStr ''lan'')])]])])])]"

text \<open>The same world with a template file for the volume \<open>web1-boot-old\<close>.\<close>

definition boot_old_env :: "unit env" where
  "boot_old_env =
     (table_env dc1_table (resource ''srv'' ''web1''))
       \<lparr>listdir := (\<lambda>d. Some [''web1-boot-old.yaml''])\<rparr>"

text \<open>
  What the barrier is to observe, in the words of the specification. A member reports
  available when the \<open>state\<close> of its \<open>metadata\<close> is \<open>AVAILABLE\<close>; a response without
  that field does not report available; a response that is no object at all, or whose
  \<open>metadata\<close> is none, is malformed. \<open>responses E urls r\<close> are the answers of the
  members when they are fetched one after the other from the remote state \<open>r\<close>, and
  \<open>unavailable_round E urls r\<close> says that in a round begun in \<open>r\<close> (the sleep first) some
  member does not report available, the members before it doing so.
\<close>

definition reports_available :: "json \<Rightarrow> bool" where
  "reports_available resp = (get_in resp [''metadata'', ''state''] = Inr (JStr ''AVAILABLE''))"

definition malformed :: "json \<Rightarrow> bool" where
  "malformed resp = (get_in resp [''metadata'', ''state''] = Inl TypeError)"

fun responses :: "'r env \<Rightarrow> string list \<Rightarrow> 'r \<Rightarrow> json list" where
  "responses E [] r = []"
| "responses E (u # us) r = (case http E (GET u) r of (resp, r') \<Rightarrow> resp # responses E us r')"

definition first_unavailable :: "'r env \<Rightarrow> string list \<Rightarrow> 'r \<Rightarrow> json option" where
  "first_unavailable E urls r =
     find (\<lambda>resp. \<not> reports_available resp) (responses E urls (elapse E 5 r))"

definition unavailable_round :: "'r env \<Rightarrow> string list \<Rightarrow> 'r \<Rightarrow> bool" where
  "unavailable_round E urls r =
     (case first_unavailable E urls r of Some resp \<Rightarrow> \<not> malformed resp | None \<Rightarrow> False)"

text \<open>
  The remote side after a round: it has slept, and has answered the members up to the
  first that does not report available.
\<close>

fun fetched :: "'r env \<Rightarrow> string list \<Rightarrow> 'r \<Rightarrow> 'r" where
  "fetched E [] r = r"
| "fetched E (u # us) r =
     (case http E (GET u) r of (resp, r') \<Rightarrow>
        if reports_available resp then fetched E us r' else r')"

fun remote_after_rounds :: "'r env \<Rightarrow> string list \<Rightarrow> nat \<Rightarrow> 'r \<Rightarrow> 'r" where
  "remote_after_rounds E urls 0 r = r"
| "remote_after_rounds E urls (Suc k) r =
     remote_after_rounds E urls k (fetched E urls (elapse E 5 r))"

text \<open>A resource that stays in the state \<open>INACTIVE\<close>, beside an available one.\<close>

definition stuck_table :: "(string \<times> json) list" where
  "stuck_table =
     [(''srv'', resource ''srv'' ''web1''),
      (''stuck'', JDict [(''metadata'', JDict [(''state'', JStr ''INACTIVE'')])])]"

text \<open>
  \<open>nic_named n nic\<close>: the declared NIC carries a name equal to \<open>n\<close>.
  \<open>share_a_name names\<close>: two of the names are equal. \<open>duplicate_rules nic\<close>: the NIC
  declares a list of firewall rules, each with a hashable name, and two of them share a
  name.
\<close>

definition nic_named :: "json \<Rightarrow> json \<Rightarrow> bool" where
  "nic_named n nic =
     (case get_in nic [''properties'', ''name''] of Inr m \<Rightarrow> py_eq n m | Inl e \<Rightarrow> False)"

fun share_a_name :: "json list \<Rightarrow> bool" where
  "share_a_name [] = False"
| "share_a_name (x # xs) = (py_mem x xs \<or> share_a_name xs)"

definition duplicate_rules :: "json \<Rightarrow> bool" where
  "duplicate_rules nic =
     (case getitem nic ''firewallrules'' of
        Inr (JList rules) \<Rightarrow>
          (case names_of rules of
             Inr names \<Rightarrow> list_all hashable names \<and> share_a_name names
           | Inl e \<Rightarrow> False)
      | _ \<Rightarrow> False)"

text \<open>A configuration of \<open>web1\<close> whose NIC \<open>lan\<close> declares the rule \<open>ssh\<close> twice.\<close>

definition dup_files :: json where
  "dup_files =
     JDict [(''web1.json'', JDict
       [(''server'', JDict
           [(''properties'', JDict [(''name'', JStr ''web1'')]),
            (''entities'', JDict
               [(''volumes'', JDict [(''items'', JList [])]),
                (''nics'', JDict [(''items'', JList [])])])]),
        (''volumes'', JList []),
        (''nics'', JList [lan_nic [named ''ssh'' [], named ''ssh'' []]])])]"

text \<open>
  A configuration of \<open>web1\<close> that declares the NIC \<open>lan\<close> twice with different rules:
  standalone with the rule \<open>ssh\<close>, embedded with the rule \<open>http\<close> twice.
\<close>

definition later_dup_files :: json where
  "later_dup_files =
     JDict [(''web1.json'', JDict
       [(''server'', JDict
           [(''properties'', JDict [(''name'', JStr ''web1'')]),
            (''entities'', JDict
               [(''volumes'', JDict [(''items'', JList [])]),
                (''nics'', JDict [(''items'', JList
                   [lan_nic [named ''http'' [], named ''http'' []]])])])]),
        (''volumes'', JList []),
        (''nics'', JList [lan_nic [named ''ssh'' []]])])]"

text \<open>The remote side of \<open>dc1_table\<close> with the attached NIC named \<open>lan\<close>.\<close>

definition lan_table :: "(string \<times> json) list" where
  "lan_table = AList.update ''nic'' (resource ''nic'' ''lan'') dc1_table"

section \<open>Basic facts about runs\<close>

lemma return_apply: "return x s = (Inr x, s)"
  by (simp add: return_def)

lemma throw_apply: "throw e s = (Inl e, s)"
  by (simp add: throw_def)

lemma lift_apply: "lift r s = (r, s)"
  by (simp add: lift_def)

lemma bind_apply:
  "bind m f s = (case m s of (Inl e, s') \<Rightarrow> (Inl e, s') | (Inr x, s') \<Rightarrow> f x s')"
  by (simp add: bind_def)

lemma bind_Inr: "m s = (Inr x, s') \<Longrightarrow> bind m f s = f x s'"
  by (simp add: bind_def)

lemma bind_Inl: "m s = (Inl e, s') \<Longrightarrow> bind m f s = (Inl e, s')"
  by (simp add: bind_def)

lemmas run_simps = return_apply throw_apply lift_apply bind_apply

lemma emits_return [simp]: "emits P (return x)"
  by (simp add: emits_def run_simps)

lemma emits_throw [simp]: "emits P (throw e)"
  by (simp add: emits_def run_simps)

lemma emits_lift [simp]: "emits P (lift r)"
  by (simp add: emits_def run_simps)

lemma emits_bind:
  assumes "emits P m" and "\<And>x. emits P (f x)"
  shows "emits P (bind m f)"
  unfolding emits_def
proof
  fix s
  obtain r s1 where ms: "m s = (r, s1)" by (cases "m s")
  from assms(1) obtain evs where e1: "trace s1 = trace s @ evs" "list_all P evs"
    unfolding emits_def using ms by (metis snd_conv)
  show "\<exists>evs. trace (snd (bind m f s)) = trace s @ evs \<and> list_all P evs"
  proof (cases r)
    case (Inl e)
    then show ?thesis using ms e1 by (auto simp: bind_def)
  next
    case (Inr x)
    from assms(2)[of x] obtain evs' where
      "trace (snd (f x s1)) = trace s1 @ evs'" "list_all P evs'"
      unfolding emits_def by blast
    then show ?thesis using ms e1 Inr by (auto simp: bind_def)
  qed
qed

lemma emits_mono:
  assumes "emits P m" and "\<And>e. P e \<Longrightarrow> Q e"
  shows "emits Q m"
  using assms unfolding emits_def list_all_iff by blast

lemma emits_send: "P (Request rq) \<Longrightarrow> emits P (send E rq)"
  by (auto simp: emits_def send_def split: prod.splits)

lemma emits_requests_get: "(\<And>u. P (Request (GET u))) \<Longrightarrow> emits P (requests_get E url)"
  by (cases url) (auto simp: requests_get_def intro: emits_send)

lemma emits_sleep: "P (Sleep n) \<Longrightarrow> emits P (sleep E n)"
  by (simp add: emits_def sleep_def)

lemma emits_name_to_href_items:
  "(\<And>u. P (Request (GET u))) \<Longrightarrow> emits P (name_to_href_items E name items)"
  by (induction items) (auto intro!: emits_bind emits_requests_get)

lemma emits_name_to_href:
  "(\<And>u. P (Request (GET u))) \<Longrightarrow> emits P (name_to_href E name api_url)"
  unfolding name_to_href_def
  by (intro emits_bind emits_requests_get emits_lift emits_name_to_href_items)

lemma emits_server_exists_items:
  "(\<And>u. P (Request (GET u))) \<Longrightarrow> emits P (server_exists_items E name items)"
  by (induction items) (auto intro!: emits_bind emits_requests_get)

lemma emits_server_exists:
  "(\<And>u. P (Request (GET u))) \<Longrightarrow> emits P (server_exists E name api_url)"
  unfolding server_exists_def
  by (intro emits_bind emits_requests_get emits_lift emits_server_exists_items)

lemma keeps_files_return [simp]: "keeps_files (return x)"
  by (simp add: keeps_files_def run_simps)

lemma keeps_files_throw [simp]: "keeps_files (throw e)"
  by (simp add: keeps_files_def run_simps)

lemma keeps_files_lift [simp]: "keeps_files (lift r)"
  by (simp add: keeps_files_def run_simps)

lemma keeps_files_bind:
  assumes "keeps_files m" and "\<And>x. keeps_files (f x)"
  shows "keeps_files (bind m f)"
  unfolding keeps_files_def
proof
  fix s
  obtain r s1 where ms: "m s = (r, s1)" by (cases "m s")
  with assms(1) have f1: "json_files s1 = json_files s"
    unfolding keeps_files_def by (metis snd_conv)
  show "json_files (snd (bind m f s)) = json_files s"
  proof (cases r)
    case (Inl e)
    then show ?thesis using ms f1 by (simp add: bind_def)
  next
    case (Inr x)
    from assms(2)[of x] have "json_files (snd (f x s1)) = json_files s1"
      unfolding keeps_files_def by blast
    then show ?thesis using ms f1 Inr by (simp add: bind_def)
  qed
qed

lemma keeps_files_send: "keeps_files (send E rq)"
  by (auto simp: keeps_files_def send_def split: prod.splits)

lemma keeps_files_requests_get: "keeps_files (requests_get E url)"
  by (cases url) (auto simp: requests_get_def keeps_files_send)

lemma keeps_files_sleep: "keeps_files (sleep E n)"
  by (simp add: keeps_files_def sleep_def)

lemma keeps_files_name_to_href_items: "keeps_files (name_to_href_items E name items)"
  by (induction items) (auto intro!: keeps_files_bind keeps_files_requests_get)

lemma keeps_files_name_to_href: "keeps_files (name_to_href E name api_url)"
  unfolding name_to_href_def
  by (intro keeps_files_bind keeps_files_requests_get keeps_files_lift
      keeps_files_name_to_href_items)

lemma keeps_files_server_exists_items: "keeps_files (server_exists_items E name items)"
  by (induction items) (auto intro!: keeps_files_bind keeps_files_requests_get)

lemma keeps_files_server_exists: "keeps_files (server_exists E name api_url)"
  unfolding server_exists_def
  by (intro keeps_files_bind keeps_files_requests_get keeps_files_lift
      keeps_files_server_exists_items)

lemma list_all_is_get: "list_all is_get evs \<Longrightarrow> \<exists>urls. evs = gets urls"
proof (induction evs)
  case Nil
  then show ?case by (auto simp: gets_def)
next
  case (Cons e evs)
  then obtain urls where "evs = gets urls" by auto
  moreover from Cons.prems obtain u where "e = Request (GET u)"
    by (auto simp: is_get_def split: event.splits request.splits)
  ultimately have "e # evs = gets (u # urls)" by (simp add: gets_def)
  then show ?case by blast
qed

section \<open>Create on an existing server\<close>



lemma emitted_append: "trace s' = trace s @ evs \<Longrightarrow> emitted s s' = evs"
  by (simp add: emitted_def)

lemma await_Suc:
  "await E hrefs (Suc n) s =
     (case polling_round E hrefs s of
        (Inl e, s') \<Rightarrow> (Inl e, s')
      | (Inr ok, s') \<Rightarrow> if ok then (Inr (), s') else await E hrefs n s')"
  by (simp add: polling_round_def bind_def sleep_def return_def split: prod.splits sum.splits)

lemma getitem_error: "getitem obj k = Inl e \<Longrightarrow> e = KeyError \<or> e = TypeError"
  by (cases obj) (auto split: option.splits)

lemma status_of_error: "status_of resp = Inl e \<Longrightarrow> e = TypeError"
proof (cases "getitem resp ''metadata''")
  case (Inl e1)
  with getitem_error[OF Inl] show "status_of resp = Inl e \<Longrightarrow> e = TypeError"
    by (auto simp: status_of_def)
next
  case (Inr md)
  assume a: "status_of resp = Inl e"
  show "e = TypeError"
  proof (cases "getitem md ''state''")
    case (Inl e2)
    with getitem_error[OF Inl] a Inr show ?thesis by (auto simp: status_of_def)
  next
    case (Inr st)
    with a \<open>getitem resp ''metadata'' = Inr md\<close> show ?thesis by (simp add: status_of_def)
  qed
qed

lemma poll_not_Timeout: "fst (poll E hrefs s) \<noteq> Inl Timeout"
proof (induction hrefs arbitrary: s)
  case Nil
  then show ?case by (simp add: return_def)
next
  case (Cons h hs)
  show ?case
  proof (cases h)
    case (JStr u)
    obtain resp r' where hr: "http E (GET u) (remote s) = (resp, r')" by (cases "http E (GET u) (remote s)")
    show ?thesis
    proof (cases "status_of resp")
      case (Inl e)
      then show ?thesis using JStr hr status_of_error[OF Inl]
        by (simp add: bind_def requests_get_def send_def lift_def)
    next
      case (Inr st)
      then show ?thesis using JStr hr Cons.IH
        by (simp add: bind_def requests_get_def send_def lift_def return_def)
    qed
  qed (simp_all add: bind_def requests_get_def throw_def)
qed

lemma polling_round_not_Timeout: "fst (polling_round E hrefs s) \<noteq> Inl Timeout"
  using poll_not_Timeout by (simp add: polling_round_def bind_def sleep_def)

lemma all_less_Suc: "(\<forall>k<Suc n. P k) \<longleftrightarrow> (P 0 \<and> (\<forall>k<n. P (Suc k)))"
  by (metis less_Suc_eq_0_disj)

lemma await_Timeout_iff:
  "fst (await E hrefs n s) = Inl Timeout \<longleftrightarrow>
     (\<forall>k<n. fst (polling_round E hrefs (after_rounds E hrefs k s)) = Inr False)"
proof (induction n arbitrary: s)
  case 0
  then show ?case by (simp add: throw_def)
next
  case (Suc n)
  obtain r s1 where run: "polling_round E hrefs s = (r, s1)" by (cases "polling_round E hrefs s")
  show ?case
  proof (cases r)
    case (Inl e)
    with run polling_round_not_Timeout[of E hrefs s] have "e \<noteq> Timeout" by auto
    then show ?thesis using run Inl
      by (auto simp: await_Suc all_less_Suc simp del: await.simps)
  next
    case (Inr ok)
    show ?thesis
    proof (cases ok)
      case True
      then show ?thesis using run Inr by (auto simp: await_Suc all_less_Suc simp del: await.simps)
    next
      case False
      then show ?thesis using run Inr Suc.IH[of s1]
        by (simp add: await_Suc all_less_Suc del: await.simps)
    qed
  qed
qed

lemma sleep_apply:
  "sleep E n s = (Inr (), s\<lparr>remote := elapse E n (remote s), trace := trace s @ [Sleep n]\<rparr>)"
  by (simp add: sleep_def)

lemma poll_gets: "\<exists>urls. trace (snd (poll E hrefs s)) = trace s @ gets urls"
proof -
  have "emits is_get (poll E hrefs)"
    by (induction hrefs) (auto intro!: emits_bind emits_requests_get simp: is_get_def)
  then obtain evs where "trace (snd (poll E hrefs s)) = trace s @ evs" "list_all is_get evs"
    unfolding emits_def by blast
  then show ?thesis using list_all_is_get by blast
qed

lemma polling_round_trace:
  "\<exists>urls. trace (snd (polling_round E hrefs s)) = trace s @ Sleep 5 # gets urls"
  using poll_gets[of E hrefs "s\<lparr>remote := elapse E 5 (remote s), trace := trace s @ [Sleep 5]\<rparr>"]
  by (auto simp: polling_round_def bind_def sleep_def)

lemma sleeps_gets [simp]: "sleeps (gets urls) = 0"
  by (induction urls) (auto simp: sleeps_def gets_def is_sleep_def)

lemma sleeps_append [simp]: "sleeps (xs @ ys) = sleeps xs + sleeps ys"
  by (simp add: sleeps_def)

lemma sleeps_Sleep [simp]: "sleeps (Sleep n # evs) = Suc (sleeps evs)"
  by (simp add: sleeps_def is_sleep_def)

lemma emits_poll: "(\<And>u. P (Request (GET u))) \<Longrightarrow> emits P (poll E hrefs)"
  by (induction hrefs) (auto intro!: emits_bind emits_requests_get)

lemma emits_await:
  "(\<And>u. P (Request (GET u))) \<Longrightarrow> (\<And>n. P (Sleep n)) \<Longrightarrow> emits P (await E hrefs n)"
  by (induction n) (auto intro!: emits_bind emits_sleep emits_poll)

lemma emits_all_available:
  "(\<And>u. P (Request (GET u))) \<Longrightarrow> (\<And>n. P (Sleep n)) \<Longrightarrow> emits P (all_available E hrefs)"
  unfolding all_available_def by (rule emits_await)

lemma await_first_sleep:
  "\<exists>rest. trace (snd (await E hrefs (Suc n) s)) = trace s @ Sleep 5 # rest"
proof -
  obtain r s1 where run: "polling_round E hrefs s = (r, s1)" by (cases "polling_round E hrefs s")
  with polling_round_trace[of E hrefs s] obtain urls where
    t: "trace s1 = trace s @ Sleep 5 # gets urls" by auto
  have "emits (\<lambda>e. True) (await E hrefs n)" by (rule emits_await) simp_all
  then obtain evs where r: "trace (snd (await E hrefs n s1)) = trace s1 @ evs"
    unfolding emits_def by blast
  show ?thesis
    using run t r by (cases r) (auto simp: await_Suc simp del: await.simps)
qed

lemma await_Timeout_sleeps:
  "fst (await E hrefs n s) = Inl Timeout \<Longrightarrow>
     \<exists>evs. trace (snd (await E hrefs n s)) = trace s @ evs \<and> sleeps evs = n"
proof (induction n arbitrary: s)
  case 0
  then show ?case by (simp add: throw_def sleeps_def)
next
  case (Suc n)
  obtain r s1 where run: "polling_round E hrefs s = (r, s1)" by (cases "polling_round E hrefs s")
  with polling_round_trace[of E hrefs s] obtain urls where
    t: "trace s1 = trace s @ Sleep 5 # gets urls" by auto
  have nt: "r \<noteq> Inl Timeout" using polling_round_not_Timeout[of E hrefs s] run by auto
  show ?case
  proof (cases r)
    case (Inl e)
    then show ?thesis using Suc.prems run nt by (simp add: await_Suc del: await.simps)
  next
    case (Inr ok)
    show ?thesis
    proof (cases ok)
      case True
      then show ?thesis using Suc.prems run Inr by (simp add: await_Suc del: await.simps)
    next
      case False
      with Suc.prems run Inr have "fst (await E hrefs n s1) = Inl Timeout"
        by (simp add: await_Suc del: await.simps)
      from Suc.IH[OF this] obtain evs where
        "trace (snd (await E hrefs n s1)) = trace s1 @ evs" "sleeps evs = n" by blast
      then show ?thesis using run Inr False t
        by (auto simp: await_Suc simp del: await.simps)
    qed
  qed
qed

text \<open>When every URL reports AVAILABLE whatever the remote state, one round suffices.\<close>

lemma poll_all_available:
  assumes "\<And>u r. u \<in> set urls \<Longrightarrow> status_of (fst (http E (GET u) r)) = Inr (JStr ''AVAILABLE'')"
  shows "fst (poll E (map JStr urls) s) = Inr True
       \<and> trace (snd (poll E (map JStr urls) s)) = trace s @ gets urls"
  using assms
proof (induction urls arbitrary: s)
  case Nil
  then show ?case by (simp add: return_def gets_def)
next
  case (Cons u us)
  obtain resp r' where hr: "http E (GET u) (remote s) = (resp, r')"
    by (cases "http E (GET u) (remote s)")
  have st: "status_of resp = Inr (JStr ''AVAILABLE'')"
    using Cons.prems[of u "remote s"] hr by simp
  let ?s1 = "s\<lparr>remote := r', trace := trace s @ [Request (GET u)]\<rparr>"
  have step: "poll E (map JStr (u # us)) s = poll E (map JStr us) ?s1"
    using hr st by (simp add: bind_def requests_get_def send_def lift_def)
  have "fst (poll E (map JStr us) ?s1) = Inr True
       \<and> trace (snd (poll E (map JStr us) ?s1)) = trace ?s1 @ gets us"
    by (rule Cons.IH) (simp add: Cons.prems)
  then show ?case unfolding step by (simp add: gets_def)
qed

lemma all_available_at_once:
  assumes "\<And>u r. u \<in> set urls \<Longrightarrow> status_of (fst (http E (GET u) r)) = Inr (JStr ''AVAILABLE'')"
  shows "fst (all_available E (map JStr urls) s) = Inr ()
       \<and> trace (snd (all_available E (map JStr urls) s)) = trace s @ Sleep 5 # gets urls"
proof -
  let ?s0 = "s\<lparr>remote := elapse E 5 (remote s), trace := trace s @ [Sleep 5]\<rparr>"
  obtain s1 where p: "poll E (map JStr urls) ?s0 = (Inr True, s1)"
    and t: "trace s1 = trace ?s0 @ gets urls"
    using poll_all_available[OF assms, of urls ?s0]
    by (cases "poll E (map JStr urls) ?s0") auto
  have "all_available E (map JStr urls) s = (Inr (), s1)"
    using p by (simp add: all_available_def numeral_eq_Suc bind_def sleep_def return_def)
  then show ?thesis using t by simp
qed

lemma after_rounds_trace:
  "\<exists>evs. trace (after_rounds E hrefs k s) = trace s @ evs \<and> sleeps evs = k"
proof (induction k arbitrary: s)
  case 0
  then show ?case by (simp add: sleeps_def)
next
  case (Suc k)
  obtain urls where t: "trace (snd (polling_round E hrefs s)) = trace s @ Sleep 5 # gets urls"
    using polling_round_trace by blast
  from Suc[of "snd (polling_round E hrefs s)"] obtain evs where
    "trace (after_rounds E hrefs k (snd (polling_round E hrefs s)))
       = trace (snd (polling_round E hrefs s)) @ evs" "sleeps evs = k" by blast
  then show ?case using t by simp
qed

lemma polling_round_single_trace:
  "trace (snd (polling_round E [JStr u] s)) = trace s @ [Sleep 5, Request (GET u)]"
  by (simp add: polling_round_def bind_def sleep_def requests_get_def send_def lift_def
      return_def split: prod.splits sum.splits)

lemma after_rounds_single_trace:
  "trace (after_rounds E [JStr u] k s)
     = trace s @ concat (replicate k [Sleep 5, Request (GET u)])"
  by (induction k arbitrary: s) (simp_all add: polling_round_single_trace)

lemma await_rounds:
  assumes "\<And>j. j < k \<Longrightarrow> fst (polling_round E hrefs (after_rounds E hrefs j s)) = Inr False"
    and "fst (polling_round E hrefs (after_rounds E hrefs k s)) = Inr True"
  shows "await E hrefs (Suc k + n) s = (Inr (), after_rounds E hrefs (Suc k) s)"
  using assms
proof (induction k arbitrary: s)
  case 0
  then show ?case
    by (cases "polling_round E hrefs s") (simp add: await_Suc del: await.simps)
next
  case (Suc k)
  have first: "fst (polling_round E hrefs s) = Inr False"
    using Suc.prems(1)[of 0] by simp
  have "await E hrefs (Suc k + n) (snd (polling_round E hrefs s))
      = (Inr (), after_rounds E hrefs (Suc k) (snd (polling_round E hrefs s)))"
  proof (rule Suc.IH)
    fix j assume "j < k"
    then show "fst (polling_round E hrefs
        (after_rounds E hrefs j (snd (polling_round E hrefs s)))) = Inr False"
      using Suc.prems(1)[of "Suc j"] by simp
  next
    show "fst (polling_round E hrefs
        (after_rounds E hrefs k (snd (polling_round E hrefs s)))) = Inr True"
      using Suc.prems(2) by simp
  qed
  moreover have "await E hrefs (Suc (Suc k + n)) s
      = await E hrefs (Suc k + n) (snd (polling_round E hrefs s))"
    using first await_Suc[of E hrefs "Suc k + n" s]
    by (cases "polling_round E hrefs s") (simp del: await.simps)
  ultimately show ?case by (simp del: await.simps)
qed

lemma three_rounds:
  assumes "fst (polling_round E hrefs s) = Inr False"
      and "fst (polling_round E hrefs (after_rounds E hrefs 1 s)) = Inr False"
      and "fst (polling_round E hrefs (after_rounds E hrefs 2 s)) = Inr True"
  shows "all_available E hrefs s = (Inr (), after_rounds E hrefs 3 s)"
proof -
  have "\<And>j. j < 2 \<Longrightarrow> fst (polling_round E hrefs (after_rounds E hrefs j s)) = Inr False"
    using assms(1,2) by (auto simp: less_Suc_eq numeral_2_eq_2)
  from await_rounds[of 2 E hrefs s 117, OF this assms(3)]
  show ?thesis by (simp add: all_available_def numeral_3_eq_3)
qed

section \<open>The barrier on busy, busy, available\<close>

text \<open>
  Claim C3, as the code has it. When the first two polling rounds find the hrefs not
  available and the third finds them available, \<^verbatim>\<open>all_available\<close> returns
  successfully in the state reached after exactly three rounds, and it has slept three
  times, not twice: every round, the first included, begins with its sleep. For a single
  href the requests and sleeps are sleep, GET, sleep, GET, sleep, GET.
\<close>

theorem all_available_busy_busy_available:
  assumes "fst (polling_round E hrefs s) = Inr False"
      and "fst (polling_round E hrefs (after_rounds E hrefs 1 s)) = Inr False"
      and "fst (polling_round E hrefs (after_rounds E hrefs 2 s)) = Inr True"
  shows "fst (all_available E hrefs s) = Inr ()
       \<and> snd (all_available E hrefs s) = after_rounds E hrefs 3 s
       \<and> sleeps (emitted s (snd (all_available E hrefs s))) = 3
       \<and> (\<forall>u. hrefs = [JStr u] \<longrightarrow>
            emitted s (snd (all_available E hrefs s))
              = [Sleep 5, Request (GET u), Sleep 5, Request (GET u), Sleep 5, Request (GET u)])"
proof -
  have run: "all_available E hrefs s = (Inr (), after_rounds E hrefs 3 s)"
    by (rule three_rounds[OF assms])
  obtain evs where t: "trace (after_rounds E hrefs 3 s) = trace s @ evs" "sleeps evs = 3"
    using after_rounds_trace by blast
  have single: "hrefs = [JStr u] \<Longrightarrow> emitted s (after_rounds E hrefs 3 s)
      = [Sleep 5, Request (GET u), Sleep 5, Request (GET u), Sleep 5, Request (GET u)]" for u
  proof -
    assume h: "hrefs = [JStr u]"
    have "trace (after_rounds E [JStr u] 3 s)
        = trace s @ concat (replicate 3 [Sleep 5, Request (GET u)])"
      by (rule after_rounds_single_trace)
    then show ?thesis using h by (simp add: emitted_def numeral_3_eq_3)
  qed
  have e: "emitted s (after_rounds E hrefs 3 s) = evs"
    using t(1) by (rule emitted_append)
  show ?thesis unfolding run fst_conv snd_conv using t(2) e single by blast
qed

lemma settling_round:
  "polling_round (settling_env b) [JStr u] s =
     (Inr (b \<le> remote s), s\<lparr>remote := Suc (remote s), trace := trace s @ [Sleep 5, Request (GET u)]\<rparr>)"
  by (simp add: polling_round_def bind_def sleep_def requests_get_def send_def lift_def
      return_def settling_env_def status_of_def and_then_def)

theorem all_available_busy_busy_available_witness:
  "fst (polling_round (settling_env 2) [JStr ''srv''] settling_start) = Inr False
   \<and> fst (all_available (settling_env 2) [JStr ''srv''] settling_start) = Inr ()
   \<and> sleeps (emitted settling_start
        (snd (all_available (settling_env 2) [JStr ''srv''] settling_start))) = 3"
proof -
  have h1: "fst (polling_round (settling_env 2) [JStr ''srv''] settling_start) = Inr False"
    by (simp add: settling_round settling_start_def)
  have h2: "fst (polling_round (settling_env 2) [JStr ''srv'']
      (after_rounds (settling_env 2) [JStr ''srv''] 1 settling_start)) = Inr False"
    by (simp add: settling_round settling_start_def)
  have h3: "fst (polling_round (settling_env 2) [JStr ''srv'']
      (after_rounds (settling_env 2) [JStr ''srv''] 2 settling_start)) = Inr True"
    by (simp add: settling_round settling_start_def numeral_2_eq_2)
  show ?thesis
    using all_available_busy_busy_available[OF h1 h2 h3] h1 by blast
qed

text \<open>
  Against the reading of C3 with two sleep intervals: on a resource that answers
  \<open>BUSY\<close>, \<open>BUSY\<close>, \<open>AVAILABLE\<close> the barrier sleeps three times.
\<close>

theorem all_available_two_sleeps_counterexample:
  "fst (all_available (settling_env 2) [JStr ''srv''] settling_start) = Inr ()
   \<and> trace (snd (all_available (settling_env 2) [JStr ''srv''] settling_start))
       = [Sleep 5, Request (GET ''srv''), Sleep 5, Request (GET ''srv''),
          Sleep 5, Request (GET ''srv'')]
   \<and> sleeps (trace (snd (all_available (settling_env 2) [JStr ''srv''] settling_start))) \<noteq> 2"
proof -
  have h1: "fst (polling_round (settling_env 2) [JStr ''srv''] settling_start) = Inr False"
    by (simp add: settling_round settling_start_def)
  have h2: "fst (polling_round (settling_env 2) [JStr ''srv'']
      (after_rounds (settling_env 2) [JStr ''srv''] 1 settling_start)) = Inr False"
    by (simp add: settling_round settling_start_def)
  have h3: "fst (polling_round (settling_env 2) [JStr ''srv'']
      (after_rounds (settling_env 2) [JStr ''srv''] 2 settling_start)) = Inr True"
    by (simp add: settling_round settling_start_def numeral_2_eq_2)
  have "all_available (settling_env 2) [JStr ''srv''] settling_start
      = (Inr (), after_rounds (settling_env 2) [JStr ''srv''] 3 settling_start)"
    by (rule three_rounds[OF h1 h2 h3])
  moreover have "trace (after_rounds (settling_env 2) [JStr ''srv''] 3 settling_start)
      = [Sleep 5, Request (GET ''srv''), Sleep 5, Request (GET ''srv''),
         Sleep 5, Request (GET ''srv'')]"
    using after_rounds_single_trace[of "settling_env 2" "''srv''" 3 settling_start]
    by (simp add: numeral_3_eq_3 settling_start_def del: after_rounds.simps)
  ultimately show ?thesis by (simp add: sleeps_def is_sleep_def)
qed

section \<open>Passwords of embedded volumes\<close>

text \<open>
  Claim C6 fails on the code. The \<^verbatim>\<open>try\<close> of \<^verbatim>\<open>create_single\<close> encloses the
  whole loop over the embedded volumes, so the \<^verbatim>\<open>KeyError\<close> of the first volume
  without an \<^verbatim>\<open>imagePassword\<close> key ends the loop: here the second embedded volume
  declares a null password, no password is drawn, and the payload that is posted still
  carries the null.
\<close>

theorem create_single_leaves_null_password:
  "embedded_property web1_entry 0 ''imagePassword'' = Inl KeyError
   \<and> embedded_property web1_entry 1 ''imagePassword'' = Inr JNull
   \<and> creation_payload (table_env dc1_table (resource ''srv'' ''web1'')) web1_entry
         (start web1_files) = (Inr web1_payload, start web1_files)
   \<and> embedded_property web1_payload 1 ''imagePassword'' = Inr JNull
   \<and> create_single (table_env dc1_table (resource ''srv'' ''web1''))
         (JStr ''web1'') (JStr ''dc/servers'') (start web1_files)
       = (Inr (JStr ''srv''),
          (start web1_files)\<lparr>trace := [Request (POST ''dc/servers'' web1_payload),
                                        Sleep 5, Request (GET ''srv'')]\<rparr>)"
  by code_simp

section \<open>The shared configuration under attach\<close>

text \<open>
  Claim C4 fails on the code. \<^verbatim>\<open>attach_single\<close> assigns the generated password
  to \<^verbatim>\<open>json_file[type][idx]["properties"]["imagePassword"]\<close>, an object of
  \<^verbatim>\<open>json_files\<close> itself: after the operation the declared null password of
  volume \<open>data1\<close> has become the generated one in \<^verbatim>\<open>json_files\<close>.
\<close>

theorem attach_single_changes_json_files:
  "declared_property web1_files ''web1.json'' ''volumes'' 0 ''imagePassword'' = Inr JNull
   \<and> fst (attach_single (table_env dc1_table (resource ''vol'' ''data1'')) (JStr ''srv'')
           (JStr ''web1'') (JStr ''data1'') ''volumes'' (start web1_files)) = Inr ()
   \<and> declared_property
         (json_files (snd (attach_single (table_env dc1_table (resource ''vol'' ''data1''))
            (JStr ''srv'') (JStr ''web1'') (JStr ''data1'') ''volumes'' (start web1_files))))
         ''web1.json'' ''volumes'' 0 ''imagePassword''
       = Inr (JStr ''ABCDEFGHIJKLMNOPQRSTUVWXYZabcdef'')
   \<and> json_files (snd (attach_single (table_env dc1_table (resource ''vol'' ''data1''))
         (JStr ''srv'') (JStr ''web1'') (JStr ''data1'') ''volumes'' (start web1_files)))
       \<noteq> json_files (start web1_files)"
  by code_simp

text \<open>
  Against the reading of C8 with a suffix test in Create: the embedded volume
  \<open>web1-boot-old\<close> does not end with \<open>-boot\<close>, its template file exists, and the
  payload carries the boot script as its \<^verbatim>\<open>userData\<close>.
\<close>

theorem boot_script_on_infix_counterexample:
  "\<not> endswith ''web1-boot-old'' ''-boot''
   \<and> embedded_property web1_entry 1 ''name'' = Inr (JStr ''web1-boot-old'')
   \<and> embedded_property web1_entry 1 ''userData'' = Inl KeyError
   \<and> and_then (fst (creation_payload boot_old_env web1_entry (start web1_files)))
        (\<lambda>payload. embedded_property payload 1 ''userData'') = Inr (JStr ''blob'')"
  by code_simp

lemma and_then_Inr_iff:
  "and_then r f = Inr y \<longleftrightarrow> (\<exists>x. r = Inr x \<and> f x = Inr y)"
  by (cases r) (auto simp: and_then_def)

lemma and_then_Inl_iff:
  "and_then r f = Inl e \<longleftrightarrow> (r = Inl e \<or> (\<exists>x. r = Inr x \<and> f x = Inl e))"
  by (cases r) (auto simp: and_then_def)

lemma get_in_error: "get_in obj ks = Inl e \<Longrightarrow> e = KeyError \<or> e = TypeError"
proof (induction ks arbitrary: obj)
  case Nil
  then show ?case by simp
next
  case (Cons k ks)
  then show ?case using getitem_error by (auto simp: and_then_Inl_iff)
qed

lemma names_of_error: "names_of ts = Inl e \<Longrightarrow> e = KeyError \<or> e = TypeError"
proof (induction ts)
  case Nil
  then show ?case by simp
next
  case (Cons t ts)
  then show ?case using get_in_error[of t "[''properties'', ''name'']" e]
    by (auto simp: and_then_Inl_iff simp del: get_in.simps)
qed

lemma py_add_error: "py_add a b = Inl e \<Longrightarrow> e = TypeError"
  by (cases a; cases b) auto

lemma py_iter_error: "py_iter a = Inl e \<Longrightarrow> e = TypeError"
  by (cases a) auto

lemma as_str_error: "as_str a = Inl e \<Longrightarrow> e = TypeError"
  by (cases a) auto

lemma names_of_append:
  "names_of (xs @ ys) = Inr ns \<Longrightarrow>
     \<exists>n1 n2. names_of xs = Inr n1 \<and> names_of ys = Inr n2 \<and> ns = n1 @ n2"
proof (induction xs arbitrary: ns)
  case Nil
  then show ?case by simp
next
  case (Cons x xs)
  from Cons.prems obtain n rest where
    n: "get_in x [''properties'', ''name''] = Inr n" and
    r: "names_of (xs @ ys) = Inr rest" and ns: "ns = n # rest"
    by (auto simp: and_then_Inr_iff simp del: get_in.simps)
  from Cons.IH[OF r] obtain n1 n2 where
    "names_of xs = Inr n1" "names_of ys = Inr n2" "rest = n1 @ n2" by blast
  then show ?case using n ns by (auto simp: and_then_def simp del: get_in.simps)
qed

lemma json_file_apply:
  "json_file server_name s =
     (and_then (py_add server_name (JStr ''.json'')) (\<lambda>key.
      and_then (as_str key) (\<lambda>k. getitem (json_files s) k)), s)"
  by (auto simp: json_file_def bind_def lift_def and_then_def split: sum.splits)

lemma getitem_not_NotFound [simp]: "getitem obj k \<noteq> Inl NotFound"
  using getitem_error[of obj k NotFound] by auto

lemma get_in_not_NotFound [simp]: "get_in obj ks \<noteq> Inl NotFound"
  using get_in_error[of obj ks NotFound] by auto

lemma names_of_not_NotFound [simp]: "names_of ts \<noteq> Inl NotFound"
  using names_of_error[of ts NotFound] by auto

lemma py_add_not_NotFound [simp]: "py_add a b \<noteq> Inl NotFound"
  using py_add_error[of a b NotFound] by auto

lemma py_iter_not_NotFound [simp]: "py_iter a \<noteq> Inl NotFound"
  using py_iter_error[of a NotFound] by auto

lemma as_str_not_NotFound [simp]: "as_str a \<noteq> Inl NotFound"
  using as_str_error[of a NotFound] by auto

lemma json_file_not_NotFound [simp]: "json_file server_name s \<noteq> (Inl NotFound, s')"
  by (auto simp: json_file_apply and_then_Inl_iff)

text \<open>The part of the two guards that reads the configuration.\<close>

lemma declared_names_of_both:
  assumes "py_add declared embedded = Inr both" and "py_iter both = Inr ts"
    and "names_of ts = Inr components" and "\<not> py_mem name components"
  shows "\<exists>ts' components'. py_iter declared = Inr ts' \<and> names_of ts' = Inr components'
           \<and> \<not> py_mem name components'"
proof (cases declared)
  case (JList a)
  with assms(1) obtain b where b: "embedded = JList b" "both = JList (a @ b)"
    by (cases embedded) auto
  with assms(2) have "ts = a @ b" by simp
  with assms(3) obtain n1 n2 where "names_of a = Inr n1" "components = n1 @ n2"
    using names_of_append by blast
  then show ?thesis using JList assms(4) by (auto simp: py_mem_def)
next
  case (JStr a)
  with assms(1) obtain b where b: "embedded = JStr b" "both = JStr (a @ b)"
    by (cases embedded) auto
  with assms(2) have "ts = map (\<lambda>c. JStr [c]) a @ map (\<lambda>c. JStr [c]) b" by auto
  with assms(3) obtain n1 n2 where "names_of (map (\<lambda>c. JStr [c]) a) = Inr n1" "components = n1 @ n2"
    using names_of_append by blast
  then show ?thesis using JStr assms(4) by (auto simp: py_mem_def)
qed (use assms(1) in auto)

section \<open>The guards of attach and detach\<close>




lemma keeps_files_if:
  "keeps_files a \<Longrightarrow> keeps_files b \<Longrightarrow> keeps_files (if c then a else b)"
  by simp

lemma keeps_files_poll: "keeps_files (poll E hrefs)"
  by (induction hrefs) (auto intro!: keeps_files_bind keeps_files_requests_get)

lemma keeps_files_await: "keeps_files (await E hrefs n)"
  by (induction n) (auto intro!: keeps_files_bind keeps_files_sleep keeps_files_poll)

lemma keeps_files_all_available: "keeps_files (all_available E hrefs)"
  unfolding all_available_def by (rule keeps_files_await)

lemma keeps_files_requests_post: "keeps_files (requests_post E url body)"
  by (cases url) (auto simp: requests_post_def keeps_files_send)

lemma keeps_files_requests_delete: "keeps_files (requests_delete E url)"
  by (cases url) (auto simp: requests_delete_def keeps_files_send)

lemma keeps_files_json_file: "keeps_files (json_file server_name)"
  by (simp add: keeps_files_def json_file_apply)

lemma keeps_files_url_servers: "keeps_files (url_servers E)"
  unfolding url_servers_def
  by (intro keeps_files_bind keeps_files_name_to_href keeps_files_lift)

lemma keeps_files_declared_nics: "keeps_files (declared_nics server_name)"
  unfolding declared_nics_def
  by (intro keeps_files_bind keeps_files_json_file keeps_files_lift)

lemma keeps_files_post_rules:
  "keeps_files (post_rules E name server_name nic_name URL_SERVERS rules)"
  by (induction rules)
     (auto intro!: keeps_files_bind keeps_files_name_to_href keeps_files_requests_post
        keeps_files_all_available)

lemma keeps_files_scan_nics:
  "keeps_files (scan_nics E name server_name nic_name URL_SERVERS nics)"
  by (induction nics) (auto intro!: keeps_files_bind keeps_files_post_rules)

lemma keeps_files_fwrules_create_single:
  "keeps_files (fwrules_create_single E name server_name nic_name)"
  unfolding fwrules_create_single_def
  by (intro keeps_files_bind keeps_files_url_servers keeps_files_server_exists
      keeps_files_if keeps_files_throw keeps_files_declared_nics keeps_files_scan_nics)

lemma keeps_files_create_rules: "keeps_files (create_rules E server_name nic rules)"
  by (induction rules)
     (auto intro!: keeps_files_bind keeps_files_fwrules_create_single)

lemma keeps_filesD: "keeps_files m \<Longrightarrow> m s = (r, s') \<Longrightarrow> json_files s' = json_files s"
  unfolding keeps_files_def by (metis snd_conv)

lemma declared_nics_apply:
  "declared_nics server_name s = (fst (declared_nics server_name s), s)"
  by (auto simp: declared_nics_def json_file_apply bind_def lift_def split: sum.splits)

lemma declared_nics_cong:
  "json_files s' = json_files s \<Longrightarrow>
     fst (declared_nics server_name s') = fst (declared_nics server_name s)"
  by (auto simp: declared_nics_def json_file_apply bind_def lift_def split: sum.splits)

lemma status_of_get_in:
  "status_of resp =
     (case get_in resp [''metadata'', ''state''] of
        Inr st \<Rightarrow> Inr st
      | Inl e \<Rightarrow> if e = KeyError then Inr (JStr ''BUSY'') else Inl e)"
proof (cases "getitem resp ''metadata''")
  case (Inl e)
  then show ?thesis using getitem_error[OF Inl]
    by (auto simp: status_of_def and_then_def)
next
  case (Inr md)
  show ?thesis
  proof (cases "getitem md ''state''")
    case (Inl e)
    then show ?thesis using Inr getitem_error[OF Inl]
      by (auto simp: status_of_def and_then_def)
  next
    case st: (Inr st)
    then show ?thesis using Inr by (simp add: status_of_def and_then_def)
  qed
qed

lemma status_of_available:
  "status_of resp = Inr (JStr ''AVAILABLE'') \<longleftrightarrow> reports_available resp"
  by (auto simp: status_of_get_in reports_available_def simp del: get_in.simps
      split: sum.splits if_splits)

lemma status_of_malformed: "(\<exists>e. status_of resp = Inl e) \<longleftrightarrow> malformed resp"
  using get_in_error[of resp "[''metadata'', ''state'']"]
  by (auto simp: status_of_get_in malformed_def simp del: get_in.simps
      split: sum.splits if_splits)

lemma status_of_malformed_error: "malformed resp \<Longrightarrow> status_of resp = Inl TypeError"
  by (simp add: status_of_get_in malformed_def del: get_in.simps)

lemma poll_by_responses:
  "fst (poll E (map JStr urls) s) =
     (case find (\<lambda>resp. \<not> reports_available resp) (responses E urls (remote s)) of
        None \<Rightarrow> Inr True
      | Some resp \<Rightarrow> if malformed resp then Inl TypeError else Inr False)
   \<and> remote (snd (poll E (map JStr urls) s)) = fetched E urls (remote s)"
proof (induction urls arbitrary: s)
  case Nil
  then show ?case by (simp add: return_def)
next
  case (Cons u us)
  obtain resp r' where hr: "http E (GET u) (remote s) = (resp, r')"
    by (cases "http E (GET u) (remote s)")
  let ?s1 = "s\<lparr>remote := r', trace := trace s @ [Request (GET u)]\<rparr>"
  show ?case
  proof (cases "reports_available resp")
    case True
    then have "status_of resp = Inr (JStr ''AVAILABLE'')" by (simp add: status_of_available)
    then have "poll E (map JStr (u # us)) s = poll E (map JStr us) ?s1"
      using hr by (simp add: bind_def requests_get_def send_def lift_def)
    then show ?thesis using Cons.IH[of ?s1] hr True by simp
  next
    case False
    show ?thesis
    proof (cases "malformed resp")
      case True
      then show ?thesis using hr False status_of_malformed_error[OF True]
        by (simp add: bind_def requests_get_def send_def lift_def)
    next
      case ok: False
      then obtain st where st: "status_of resp = Inr st"
        using status_of_malformed[of resp] by (cases "status_of resp") auto
      with False have "st \<noteq> JStr ''AVAILABLE''" using status_of_available by blast
      then show ?thesis using hr False ok st
        by (simp add: bind_def requests_get_def send_def lift_def return_def)
    qed
  qed
qed

lemma polling_round_by_responses:
  "fst (polling_round E (map JStr urls) s) =
     (case first_unavailable E urls (remote s) of
        None \<Rightarrow> Inr True
      | Some resp \<Rightarrow> if malformed resp then Inl TypeError else Inr False)
   \<and> remote (snd (polling_round E (map JStr urls) s)) = fetched E urls (elapse E 5 (remote s))"
  using poll_by_responses[of E urls
      "s\<lparr>remote := elapse E 5 (remote s), trace := trace s @ [Sleep 5]\<rparr>"]
  by (simp add: polling_round_def bind_def sleep_def first_unavailable_def)

lemma polling_round_False_iff:
  "fst (polling_round E (map JStr urls) s) = Inr False \<longleftrightarrow> unavailable_round E urls (remote s)"
  by (simp add: polling_round_by_responses unavailable_round_def split: option.splits)

lemma remote_after_rounds_eq:
  "remote (after_rounds E (map JStr urls) k s) = remote_after_rounds E urls k (remote s)"
  by (induction k arbitrary: s) (simp_all add: polling_round_by_responses)

lemma all_available_Timeout_by_responses:
  "fst (all_available E (map JStr urls) s) = Inl Timeout \<longleftrightarrow>
     (\<forall>k<120. unavailable_round E urls (remote_after_rounds E urls k (remote s)))"
  unfolding all_available_def await_Timeout_iff polling_round_False_iff remote_after_rounds_eq
  by simp

lemma poll_all_report_available:
  assumes "\<And>u r. u \<in> set urls \<Longrightarrow> reports_available (fst (http E (GET u) r))"
  shows "fst (all_available E (map JStr urls) s) = Inr ()
       \<and> trace (snd (all_available E (map JStr urls) s)) = trace s @ Sleep 5 # gets urls"
  by (rule all_available_at_once) (simp add: status_of_available assms)

section \<open>The barrier's attempt budget\<close>

text \<open>
  Claim C2. \<^verbatim>\<open>all_available\<close> ends with \<open>Timeout\<close> exactly when in each of its 120
  polling rounds some member of the input set did not report available (the remote
  side being, at each round, as the rounds before left it); it has then run 120 rounds
  (one sleep each), never fewer. In the model's own terms, that is when each of the 120
  rounds left the flag false. Whatever happens the barrier runs at least one round, which
  begins with a sleep of 5; and when every member reports available it returns after
  that single round, having fetched the state of each href once.
\<close>

theorem all_available_timeout_exactly_at_budget:
  "(fst (all_available E (map JStr urls) s) = Inl Timeout \<longleftrightarrow>
      (\<forall>k<120. unavailable_round E urls (remote_after_rounds E urls k (remote s))))
   \<and> (fst (all_available E hrefs s) = Inl Timeout \<longleftrightarrow>
      (\<forall>k<120. fst (polling_round E hrefs (after_rounds E hrefs k s)) = Inr False))
   \<and> (fst (all_available E hrefs s) = Inl Timeout \<longrightarrow>
        sleeps (emitted s (snd (all_available E hrefs s))) = 120)
   \<and> (\<exists>rest. emitted s (snd (all_available E hrefs s)) = Sleep 5 # rest)
   \<and> ((\<forall>u\<in>set urls. \<forall>r. reports_available (fst (http E (GET u) r))) \<longrightarrow>
        fst (all_available E (map JStr urls) s) = Inr ()
        \<and> emitted s (snd (all_available E (map JStr urls) s)) = Sleep 5 # gets urls)"
proof (intro conjI impI)
  show "fst (all_available E (map JStr urls) s) = Inl Timeout \<longleftrightarrow>
      (\<forall>k<120. unavailable_round E urls (remote_after_rounds E urls k (remote s)))"
    by (rule all_available_Timeout_by_responses)
next
  show "fst (all_available E hrefs s) = Inl Timeout \<longleftrightarrow>
      (\<forall>k<120. fst (polling_round E hrefs (after_rounds E hrefs k s)) = Inr False)"
    unfolding all_available_def by (rule await_Timeout_iff)
next
  assume "fst (all_available E hrefs s) = Inl Timeout"
  then obtain evs where "trace (snd (all_available E hrefs s)) = trace s @ evs" "sleeps evs = 120"
    unfolding all_available_def using await_Timeout_sleeps by blast
  then show "sleeps (emitted s (snd (all_available E hrefs s))) = 120"
    by (simp add: emitted_append)
next
  obtain rest where "trace (snd (await E hrefs (Suc 119) s)) = trace s @ Sleep 5 # rest"
    using await_first_sleep by blast
  then have "emitted s (snd (all_available E hrefs s)) = Sleep 5 # rest"
    by (simp add: all_available_def emitted_append del: await.simps)
  then show "\<exists>rest. emitted s (snd (all_available E hrefs s)) = Sleep 5 # rest" by blast
next
  assume a: "\<forall>u\<in>set urls. \<forall>r. reports_available (fst (http E (GET u) r))"
  then show "fst (all_available E (map JStr urls) s) = Inr ()"
    using poll_all_report_available[of urls E s] by blast
  from a show "emitted s (snd (all_available E (map JStr urls) s)) = Sleep 5 # gets urls"
    using poll_all_report_available[of urls E s] by (simp add: emitted_append)
qed

lemma stuck_round:
  "unavailable_round (table_env stuck_table JNull) [''srv'', ''stuck''] r"
  by (cases r) code_simp

theorem all_available_timeout_exactly_at_budget_witness:
  "fst (all_available (table_env stuck_table JNull) (map JStr [''srv'', ''stuck''])
         (start (JDict []))) = Inl Timeout
   \<and> sleeps (emitted (start (JDict []))
        (snd (all_available (table_env stuck_table JNull) (map JStr [''srv'', ''stuck''])
               (start (JDict []))))) = 120
   \<and> fst (all_available (table_env stuck_table JNull) (map JStr [''srv''])
        (start (JDict []))) = Inr ()
   \<and> emitted (start (JDict []))
        (snd (all_available (table_env stuck_table JNull) (map JStr [''srv''])
               (start (JDict [])))) = Sleep 5 # gets [''srv'']"
proof -
  let ?E = "table_env stuck_table JNull"
  let ?s = "start (JDict [])"
  note stuck =
    all_available_timeout_exactly_at_budget[of ?E "[''srv'', ''stuck'']" ?s
      "map JStr [''srv'', ''stuck'']"]
  note ready =
    all_available_timeout_exactly_at_budget[of ?E "[''srv'']" ?s "map JStr [''srv'']"]
  have busy: "\<forall>k<120. unavailable_round ?E [''srv'', ''stuck'']
      (remote_after_rounds ?E [''srv'', ''stuck''] k (remote ?s))"
    by (simp add: stuck_round)
  have avail: "\<forall>u\<in>set [''srv'']. \<forall>r. reports_available (fst (http ?E (GET u) r))"
    by (simp add: table_env_def stuck_table_def resource_def reports_available_def
        and_then_def)
  from stuck busy have t: "fst (all_available ?E (map JStr [''srv'', ''stuck'']) ?s) = Inl Timeout"
    by blast
  with stuck have n: "sleeps (emitted ?s
      (snd (all_available ?E (map JStr [''srv'', ''stuck'']) ?s))) = 120"
    by blast
  from ready avail have
    "fst (all_available ?E (map JStr [''srv'']) ?s) = Inr ()
     \<and> emitted ?s (snd (all_available ?E (map JStr [''srv'']) ?s)) = Sleep 5 # gets [''srv'']"
    by blast
  with t n show ?thesis by blast
qed

lemma duplicate_rulesD:
  assumes "duplicate_rules nic"
  obtains rules names where "getitem nic ''firewallrules'' = Inr (JList rules)"
    and "names_of rules = Inr names" and "list_all hashable names" and "share_a_name names"
proof (cases "getitem nic ''firewallrules''")
  case (Inl e)
  with assms show ?thesis by (simp add: duplicate_rules_def)
next
  case (Inr v)
  show ?thesis
  proof (cases v)
    case (JList rules)
    show ?thesis
    proof (cases "names_of rules")
      case (Inl e)
      with assms Inr JList show ?thesis by (simp add: duplicate_rules_def)
    next
      case names: (Inr names)
      with assms Inr JList that show ?thesis by (simp add: duplicate_rules_def)
    qed
  qed (use assms Inr in \<open>simp_all add: duplicate_rules_def\<close>)
qed

lemma names_of_length: "names_of ts = Inr ns \<Longrightarrow> length ns = length ts"
  by (induction ts arbitrary: ns) (auto simp: and_then_Inr_iff simp del: get_in.simps)

lemma py_dedup_length: "length (py_dedup xs) \<le> length xs"
  by (induction xs) auto

lemma py_dedup_shorter: "share_a_name xs \<Longrightarrow> length (py_dedup xs) < length xs"
proof (induction xs)
  case Nil
  then show ?case by simp
next
  case (Cons x xs)
  show ?case
  proof (cases "py_mem x xs")
    case True
    then show ?thesis using py_dedup_length[of xs] by simp
  next
    case False
    with Cons show ?thesis by simp
  qed
qed

text \<open>
  The scan of \<^verbatim>\<open>fwrules_create_single\<close> stops at the first NIC of that name: with two
  rules of one name there it ends before any request.
\<close>

lemma scan_nics_duplicate:
  assumes "find (nic_named nic_name) nics = Some nic" and "duplicate_rules nic"
  shows "\<exists>e. scan_nics E name server_name nic_name URL_SERVERS nics s = (Inl e, s)
           \<and> ((\<exists>ns. names_of nics = Inr ns) \<longrightarrow> e = DuplicateName)"
  using assms(1)
proof (induction nics)
  case Nil
  then show ?case by simp
next
  case (Cons nic0 nics)
  show ?case
  proof (cases "get_in nic0 [''properties'', ''name'']")
    case (Inl e)
    then show ?thesis
      by (auto simp: bind_def lift_def and_then_def simp del: get_in.simps split: sum.splits)
  next
    case (Inr n)
    have nn: "nic_named nic_name nic0 \<longleftrightarrow> py_eq nic_name n"
      using Inr by (auto simp: nic_named_def simp del: get_in.simps)
    show ?thesis
    proof (cases "py_eq nic_name n")
      case True
      with nn Cons.prems have "nic0 = nic" by simp
      with assms(2) obtain rules names where
        r: "getitem nic0 ''firewallrules'' = Inr (JList rules)"
        and n: "names_of rules = Inr names" and h: "list_all hashable names"
        and d: "share_a_name names"
        by (auto elim: duplicate_rulesD)
      have "length (py_dedup names) \<noteq> length rules"
        using py_dedup_shorter[OF d] names_of_length[OF n] by simp
      then show ?thesis using Inr True r n h
        by (simp add: bind_def lift_def throw_def py_set_len_def del: get_in.simps)
    next
      case False
      with nn Cons.prems have f: "find (nic_named nic_name) nics = Some nic"
        by simp
      from Cons.IH[OF f] obtain e where
        "scan_nics E name server_name nic_name URL_SERVERS nics s = (Inl e, s)"
        "(\<exists>ns. names_of nics = Inr ns) \<longrightarrow> e = DuplicateName" by blast
      then show ?thesis using Inr False
        by (auto simp: bind_def lift_def return_def and_then_Inr_iff simp del: get_in.simps)
    qed
  qed
qed

lemma guard_gets:
  "\<exists>urls. trace (snd (bind (url_servers E) (server_exists E server_name) s))
     = trace s @ gets urls"
proof -
  have "emits is_get (bind (url_servers E) (server_exists E server_name))"
    unfolding url_servers_def
    by (intro emits_bind emits_name_to_href emits_lift emits_server_exists)
       (simp_all add: is_get_def)
  then obtain evs where
    "trace (snd (bind (url_servers E) (server_exists E server_name) s)) = trace s @ evs"
    "list_all is_get evs"
    unfolding emits_def by blast
  then show ?thesis using list_all_is_get by blast
qed

lemma keeps_files_guard: "keeps_files (bind (url_servers E) (server_exists E server_name))"
  by (intro keeps_files_bind keeps_files_url_servers keeps_files_server_exists)

lemma fwrules_create_single_guarded:
  "fwrules_create_single E name server_name nic_name s =
     (case bind (url_servers E) (\<lambda>u. bind (server_exists E server_name u) (\<lambda>f. return (u, f))) s of
        (Inl e, s') \<Rightarrow> (Inl e, s')
      | (Inr (u, found), s') \<Rightarrow>
          if \<not> found then (Inl NotFound, s')
          else bind (declared_nics server_name) (scan_nics E name server_name nic_name u) s')"
  by (auto simp: fwrules_create_single_def bind_def throw_def return_def
      split: prod.splits sum.splits)

lemma guard_pair:
  "bind (url_servers E) (\<lambda>u. bind (server_exists E server_name u) (\<lambda>f. return (u, f))) s = (r, s')
   \<Longrightarrow> snd (bind (url_servers E) (server_exists E server_name) s) = s'
     \<and> (case r of Inl e \<Rightarrow> fst (bind (url_servers E) (server_exists E server_name) s) = Inl e
         | Inr (u, f) \<Rightarrow> fst (bind (url_servers E) (server_exists E server_name) s) = Inr f)"
  by (auto simp: bind_def return_def split: prod.splits sum.splits)

lemma fwrules_create_single_duplicate:
  assumes "fst (declared_nics server_name s) = Inr nics"
    and "find (nic_named nic_name) nics = Some nic" and "duplicate_rules nic"
  shows "\<exists>e. fwrules_create_single E name server_name nic_name s
            = (Inl e, snd (bind (url_servers E) (server_exists E server_name) s))
          \<and> (fst (bind (url_servers E) (server_exists E server_name) s) = Inr True
               \<and> (\<exists>ns. names_of nics = Inr ns) \<longrightarrow> e = DuplicateName)"
proof -
  let ?pre = "bind (url_servers E) (\<lambda>u. bind (server_exists E server_name u) (\<lambda>f. return (u, f)))"
  obtain r s' where p: "?pre s = (r, s')" by (cases "?pre s")
  note g = guard_pair[OF p]
  have files: "json_files s' = json_files s"
    using g keeps_files_guard[of E server_name] unfolding keeps_files_def by metis
  show ?thesis
  proof (cases r)
    case (Inl e)
    then show ?thesis using p g by (simp add: fwrules_create_single_guarded)
  next
    case (Inr uf)
    obtain u found where uf: "uf = (u, found)" by (cases uf)
    show ?thesis
    proof (cases found)
      case False
      then show ?thesis using p g Inr uf by (simp add: fwrules_create_single_guarded)
    next
      case True
      have d: "declared_nics server_name s' = (Inr nics, s')"
        using declared_nics_apply[of server_name s'] declared_nics_cong[OF files, of server_name]
          assms(1) by simp
      from scan_nics_duplicate[OF assms(2,3), of E name server_name u s'] obtain e where
        "scan_nics E name server_name nic_name u nics s' = (Inl e, s')"
        "(\<exists>ns. names_of nics = Inr ns) \<longrightarrow> e = DuplicateName" by blast
      then show ?thesis using p g Inr uf True d
        by (auto simp: fwrules_create_single_guarded bind_Inr[of "declared_nics server_name" s'])
    qed
  qed
qed

lemma getitem_py_in: "getitem obj k = Inr v \<Longrightarrow> py_in (JStr k) obj = Inr True"
  by (cases obj) (auto split: option.splits dest: map_of_SomeD intro: rev_image_eqI)

lemma find_Some_set: "find P xs = Some x \<Longrightarrow> x \<in> set xs \<and> P x"
  by (induction xs) (auto split: if_splits)

lemma keeps_files_create_nics: "keeps_files (create_nics E server_name nics)"
  by (induction nics)
     (auto intro!: keeps_files_bind keeps_files_lift keeps_files_if keeps_files_return
        keeps_files_create_rules)

lemma create_nics_append:
  "create_nics E server_name (xs @ ys) =
     bind (create_nics E server_name xs) (\<lambda>_. create_nics E server_name ys)"
proof (induction xs)
  case Nil
  show ?case by (simp add: bind_def return_def)
next
  case (Cons x xs)
  show ?case
    by (rule ext) (simp add: Cons bind_def split: prod.splits sum.splits)
qed

text \<open>
  The NIC whose rules share a name, reached by the loop of \<^verbatim>\<open>fwrules_create\<close>: the call
  for its first rule ends the loop.
\<close>

lemma create_nics_at_duplicate:
  assumes single: "\<And>name. fwrules_create_single E name server_name nic_name s = (Inl e, s')"
    and name: "get_in nic [''properties'', ''name''] = Inr nic_name"
    and dup: "duplicate_rules nic"
  shows "create_nics E server_name (nic # rest) s = (Inl e, s')"
proof -
  from dup obtain rules names where
    r: "getitem nic ''firewallrules'' = Inr (JList rules)"
    and n: "names_of rules = Inr names" and d: "share_a_name names"
    by (auto elim: duplicate_rulesD)
  have "names \<noteq> []" using d by auto
  with names_of_length[OF n] obtain r0 rs where rules: "rules = r0 # rs"
    by (cases rules) auto
  with n obtain n0 where n0: "get_in r0 [''properties'', ''name''] = Inr n0"
    by (auto simp: and_then_Inr_iff simp del: get_in.simps)
  have "create_rules E server_name nic rules s = (Inl e, s')"
    using rules n0 name single[of n0]
    by (simp add: bind_def lift_def del: get_in.simps)
  then show ?thesis using r getitem_py_in[OF r]
    by (simp add: bind_def lift_def)
qed

lemma create_nics_duplicate:
  assumes fails: "\<And>name s'. json_files s' = files \<Longrightarrow>
        \<exists>e s''. fwrules_create_single E name server_name nic_name s' = (Inl e, s'')"
    and "nic \<in> set nics" and "get_in nic [''properties'', ''name''] = Inr nic_name"
    and "duplicate_rules nic" and "json_files s = files"
  shows "\<exists>e. fst (create_nics E server_name nics s) = Inl e"
proof -
  from assms(2) obtain before rest where nics: "nics = before @ nic # rest"
    by (auto simp: in_set_conv_decomp)
  obtain r s1 where b: "create_nics E server_name before s = (r, s1)"
    by (cases "create_nics E server_name before s")
  show ?thesis
  proof (cases r)
    case (Inl e)
    then show ?thesis using b nics by (simp add: create_nics_append bind_def)
  next
    case (Inr u)
    have f1: "json_files s1 = files"
      using keeps_filesD[OF keeps_files_create_nics b] assms(5) by simp
    have "\<exists>e s''. create_nics E server_name (nic # rest) s1 = (Inl e, s'')"
    proof -
      from assms(4) obtain rules names where
        r: "getitem nic ''firewallrules'' = Inr (JList rules)"
        and n: "names_of rules = Inr names" and d: "share_a_name names"
        by (auto elim: duplicate_rulesD)
      have "names \<noteq> []" using d by auto
      with names_of_length[OF n] obtain r0 rs where rules: "rules = r0 # rs"
        by (cases rules) auto
      with n obtain n0 where n0: "get_in r0 [''properties'', ''name''] = Inr n0"
        by (auto simp: and_then_Inr_iff simp del: get_in.simps)
      from fails[OF f1, of n0] obtain e s'' where
        "fwrules_create_single E n0 server_name nic_name s1 = (Inl e, s'')" by blast
      then have "create_rules E server_name nic rules s1 = (Inl e, s'')"
        using rules n0 assms(3) by (simp add: bind_def lift_def del: get_in.simps)
      then show ?thesis using r getitem_py_in[OF r] by (simp add: bind_def lift_def)
    qed
    then show ?thesis using b Inr nics by (auto simp: create_nics_append bind_def)
  qed
qed

section \<open>Duplicate firewall-rule names\<close>




end
